theory Spec2Isabelle
  imports Main "HOL-Library.Word"
begin

unbundle bit_operations_syntax

section \<open>Data model of \<open>server/extract_docs.py\<close>\<close>

text \<open>
  A Python \<open>bytes\<close> object is a list of 8-bit words. A Python \<open>str\<close> is a list of
  Unicode code points (natural numbers), since the texts handled by the program are
  not restricted to one byte per character. \<open>str_of\<close> turns an ASCII literal of the
  source into such a list.
\<close>

type_synonym byte = "8 word"
type_synonym bytes = "byte list"
type_synonym pystr = "nat list"

definition str_of :: "string \<Rightarrow> pystr" where
  "str_of s = map of_char s"

text \<open>
  The exceptions (all subclasses of \<open>Exception\<close>) that the called operations raise, and
  \<open>SyntaxError\<close>, which the compiler raises for a file that is not Python.
\<close>

datatype py_exception =
    ValueError | BinasciiError | BadZipFile | KeyError | ParseError
  | ImportError | PdfReadError
  | UnicodeDecodeError | UnicodeEncodeError | SyntaxError

subsection \<open>Built-in string operations\<close>

text \<open>\<open>str.isspace\<close> of one character: the code points Python treats as whitespace.\<close>

definition py_isspace :: "nat \<Rightarrow> bool" where
  "py_isspace c \<longleftrightarrow>
     (9 \<le> c \<and> c \<le> 13) \<or> (28 \<le> c \<and> c \<le> 32) \<or> c = 133 \<or> c = 160 \<or> c = 5760
     \<or> (8192 \<le> c \<and> c \<le> 8202) \<or> c = 8232 \<or> c = 8233 \<or> c = 8239 \<or> c = 8287
     \<or> c = 12288"

text \<open>\<open>s.strip()\<close>: leading and trailing whitespace removed.\<close>

definition py_strip :: "pystr \<Rightarrow> pystr" where
  "py_strip s = rev (dropWhile py_isspace (rev (dropWhile py_isspace s)))"

text \<open>\<open>sep.join(xs)\<close>.\<close>

fun py_join :: "pystr \<Rightarrow> pystr list \<Rightarrow> pystr" where
  "py_join sep [] = []"
| "py_join sep [x] = x"
| "py_join sep (x # y # ys) = x @ sep @ py_join sep (y # ys)"

text \<open>\<open>s.endswith(suffix)\<close>.\<close>

definition py_endswith :: "pystr \<Rightarrow> pystr \<Rightarrow> bool" where
  "py_endswith s suffix \<longleftrightarrow>
     length suffix \<le> length s \<and> drop (length s - length suffix) s = suffix"

text \<open>\<open>chr(byte)\<close> for a byte of a \<open>bytes\<close> object: the code point with that number.\<close>

definition chr :: "byte \<Rightarrow> nat" where
  "chr b = unat b"

subsection \<open>Library operations\<close>

text \<open>
  \<open>base64.b64decode(s)\<close> with its default \<open>validate=False\<close>, as the standard library
  implements it. A \<open>str\<close> argument is first encoded as ASCII, which raises \<open>ValueError\<close>
  on a character above 127. \<open>binascii.a2b_base64\<close> then walks over the bytes with the
  state \<open>quad_pos\<close>, \<open>leftchar\<close>, \<open>pads\<close> and the output written so far: a byte outside
  the alphabet is skipped, a pad byte ends the decoding once it completes a quad, and
  input that ends inside a quad raises \<open>binascii.Error\<close>.
\<close>

definition table_a2b_base64 :: "byte \<Rightarrow> byte option" where
  "table_a2b_base64 b =
     (let c = unat b in
      if 65 \<le> c \<and> c \<le> 90 then Some (of_nat (c - 65))
      else if 97 \<le> c \<and> c \<le> 122 then Some (of_nat (c - 71))
      else if 48 \<le> c \<and> c \<le> 57 then Some (of_nat (c + 4))
      else if c = 43 then Some 62
      else if c = 47 then Some 63
      else None)"

fun a2b_base64_loop ::
  "nat \<Rightarrow> byte \<Rightarrow> nat \<Rightarrow> bytes \<Rightarrow> bytes \<Rightarrow> py_exception + bytes" where
  "a2b_base64_loop quad_pos leftchar pads bin_data [] =
     (if quad_pos \<noteq> 0 then Inl BinasciiError else Inr bin_data)"
| "a2b_base64_loop quad_pos leftchar pads bin_data (this_ch # ascii_data) =
     (if this_ch = 61 then
        (if 2 \<le> quad_pos \<and> 4 \<le> quad_pos + (pads + 1) then Inr bin_data
         else a2b_base64_loop quad_pos leftchar
                (if 2 \<le> quad_pos then pads + 1 else pads) bin_data ascii_data)
      else
        (case table_a2b_base64 this_ch of
           None \<Rightarrow> a2b_base64_loop quad_pos leftchar pads bin_data ascii_data
         | Some v \<Rightarrow>
             (if quad_pos = 0 then a2b_base64_loop 1 v 0 bin_data ascii_data
              else if quad_pos = 1 then
                a2b_base64_loop 2 (v AND 15) 0
                  (bin_data @ [push_bit 2 leftchar OR drop_bit 4 v]) ascii_data
              else if quad_pos = 2 then
                a2b_base64_loop 3 (v AND 3) 0
                  (bin_data @ [push_bit 4 leftchar OR drop_bit 2 v]) ascii_data
              else
                a2b_base64_loop 0 0 0
                  (bin_data @ [push_bit 6 leftchar OR v]) ascii_data)))"

definition a2b_base64 :: "bytes \<Rightarrow> py_exception + bytes" where
  "a2b_base64 data = a2b_base64_loop 0 0 0 [] data"

definition b64decode :: "pystr \<Rightarrow> py_exception + bytes" where
  "b64decode s =
     (if \<exists>c \<in> set s. 128 \<le> c then Inl ValueError else a2b_base64 (map of_nat s))"

text \<open>
  \<open>json.dumps({'text': text}, ensure_ascii=False)\<close>: the standard encoder writes the
  key, the separator \<open>": "\<close> and the string with the quote, the backslash and the
  control characters below 32 escaped; every other character is written as it is.
\<close>

definition hex_digit :: "nat \<Rightarrow> nat" where
  "hex_digit n = (if n < 10 then 48 + n else 87 + n)"

definition json_escape :: "nat \<Rightarrow> pystr" where
  "json_escape c =
     (if c = 92 then str_of [CHR 0x5C, CHR 0x5C]
      else if c = 34 then str_of [CHR 0x5C, CHR 0x22]
      else if c = 8 then 92 # str_of ''b''
      else if c = 12 then 92 # str_of ''f''
      else if c = 10 then 92 # str_of ''n''
      else if c = 13 then 92 # str_of ''r''
      else if c = 9 then 92 # str_of ''t''
      else if c < 32 then 92 # str_of ''u00'' @ [hex_digit (c div 16), hex_digit (c mod 16)]
      else [c])"

definition encode_basestring :: "pystr \<Rightarrow> pystr" where
  "encode_basestring s = 34 # concat (map json_escape s) @ [34]"

definition json_dumps_text :: "pystr \<Rightarrow> pystr" where
  "json_dumps_text text =
     str_of ''{'' @ encode_basestring (str_of ''text'') @ str_of '': ''
       @ encode_basestring text @ str_of ''}''"

text \<open>
  The ZIP reader, the XML parser and the optional PDF library are not part of the
  program; they are parameters of the model. An opened archive maps an entry name to
  the result of opening and reading that entry. A parsed XML element has its tag (in
  the parser's \<open>{namespace}local\<close> form), its \<open>text\<close> attribute (\<open>etext\<close>, \<open>None\<close> when absent) and
  its children. A PDF page is the result of its \<open>extract_text()\<close>. \<open>PdfReader\<close> is
  \<open>None\<close> when the \<open>pypdf\<close> package cannot be imported; otherwise it gives the pages
  or the exception raised while the reader is built and its pages are listed.
\<close>

type_synonym zip_archive = "pystr \<Rightarrow> (py_exception + bytes) option"

datatype element = Element (tag: pystr) (etext: "pystr option") (children: "element list")

type_synonym page = "py_exception + pystr option"

record lib =
  ZipFile :: "bytes \<Rightarrow> py_exception + zip_archive"
  fromstring :: "bytes \<Rightarrow> py_exception + element"
  PdfReader :: "(bytes \<Rightarrow> py_exception + page list) option"

text \<open>\<open>root.iter()\<close>: the element itself, then the subtree of each child, in order.\<close>

fun iter :: "element \<Rightarrow> element list" where
  "iter (Element t x cs) = Element t x cs # concat (map iter cs)"

text \<open>
  The text layer of the standard streams. \<open>sys.stdin.read()\<close> decodes the bytes of
  standard input with the encoding of the stream, and \<open>sys.stdout.write\<close> encodes its
  argument with the encoding of the stream; each raises when its codec rejects the
  input. The encodings are settings of the runtime (UTF-8 unless the locale or
  \<open>PYTHONIOENCODING\<close> says otherwise), so both codecs are parameters of the model.
\<close>

record stdio =
  stdin_decode :: "bytes \<Rightarrow> py_exception + pystr"
  stdout_encode :: "pystr \<Rightarrow> py_exception + bytes"

text \<open>
  Three codecs with the error handler \<open>strict\<close>. UTF-8 encodes a code point below
  \<open>0x110000\<close> that is not a surrogate in one to four bytes, and decodes only the shortest
  form of such a code point. Latin-1 and ASCII map a character to the byte of the same
  number, below 256 and below 128.
\<close>

definition utf8_char :: "nat \<Rightarrow> bytes option" where
  "utf8_char c =
     (if c < 128 then Some [of_nat c]
      else if c < 2048 then Some [of_nat (192 + c div 64), of_nat (128 + c mod 64)]
      else if c < 65536 then
        (if 55296 \<le> c \<and> c \<le> 57343 then None
         else Some [of_nat (224 + c div 4096), of_nat (128 + c div 64 mod 64),
                    of_nat (128 + c mod 64)])
      else if c < 1114112 then
        Some [of_nat (240 + c div 262144), of_nat (128 + c div 4096 mod 64),
              of_nat (128 + c div 64 mod 64), of_nat (128 + c mod 64)]
      else None)"

fun utf8_encode :: "pystr \<Rightarrow> py_exception + bytes" where
  "utf8_encode [] = Inr []"
| "utf8_encode (c # s) =
     (case utf8_char c of
        None \<Rightarrow> Inl UnicodeEncodeError
      | Some bs \<Rightarrow> (case utf8_encode s of Inl e \<Rightarrow> Inl e | Inr r \<Rightarrow> Inr (bs @ r)))"


fun ascii_encode :: "pystr \<Rightarrow> py_exception + bytes" where
  "ascii_encode [] = Inr []"
| "ascii_encode (c # s) =
     (if 128 \<le> c then Inl UnicodeEncodeError
      else (case ascii_encode s of Inl e \<Rightarrow> Inl e | Inr r \<Rightarrow> Inr (of_nat c # r)))"

definition continuation :: "byte \<Rightarrow> bool" where
  "continuation b \<longleftrightarrow> 128 \<le> unat b \<and> unat b \<le> 191"

definition decoded :: "nat \<Rightarrow> py_exception + pystr \<Rightarrow> py_exception + pystr" where
  "decoded c r = (case r of Inl e \<Rightarrow> Inl e | Inr s \<Rightarrow> Inr (c # s))"

fun utf8_decode :: "bytes \<Rightarrow> py_exception + pystr" where
  "utf8_decode [] = Inr []"
| "utf8_decode (b # bs) =
     (if unat b < 128 then decoded (unat b) (utf8_decode bs)
      else if 194 \<le> unat b \<and> unat b \<le> 223 then
        (case bs of
           b1 # r \<Rightarrow>
             if continuation b1
             then decoded ((unat b - 192) * 64 + (unat b1 - 128)) (utf8_decode r)
             else Inl UnicodeDecodeError
         | _ \<Rightarrow> Inl UnicodeDecodeError)
      else if 224 \<le> unat b \<and> unat b \<le> 239 then
        (case bs of
           b1 # b2 # r \<Rightarrow>
             if continuation b1 \<and> continuation b2
                \<and> 2048 \<le> (unat b - 224) * 4096 + (unat b1 - 128) * 64 + (unat b2 - 128)
                \<and> \<not> (55296 \<le> (unat b - 224) * 4096 + (unat b1 - 128) * 64 + (unat b2 - 128)
                       \<and> (unat b - 224) * 4096 + (unat b1 - 128) * 64 + (unat b2 - 128) \<le> 57343)
             then decoded ((unat b - 224) * 4096 + (unat b1 - 128) * 64 + (unat b2 - 128))
                    (utf8_decode r)
             else Inl UnicodeDecodeError
         | _ \<Rightarrow> Inl UnicodeDecodeError)
      else if 240 \<le> unat b \<and> unat b \<le> 244 then
        (case bs of
           b1 # b2 # b3 # r \<Rightarrow>
             if continuation b1 \<and> continuation b2 \<and> continuation b3
                \<and> 65536 \<le> (unat b - 240) * 262144 + (unat b1 - 128) * 4096
                             + (unat b2 - 128) * 64 + (unat b3 - 128)
                \<and> (unat b - 240) * 262144 + (unat b1 - 128) * 4096
                      + (unat b2 - 128) * 64 + (unat b3 - 128) < 1114112
             then decoded ((unat b - 240) * 262144 + (unat b1 - 128) * 4096
                             + (unat b2 - 128) * 64 + (unat b3 - 128))
                    (utf8_decode r)
             else Inl UnicodeDecodeError
         | _ \<Rightarrow> Inl UnicodeDecodeError)
      else Inl UnicodeDecodeError)"


section \<open>The program\<close>

subsection \<open>\<open>read_stdin\<close> (lines 14 to 21)\<close>

text \<open>
  \<open>read_stdin\<close> takes the bytes on standard input. The call \<open>sys.stdin.read()\<close> of line 15
  stands before the \<open>try\<close> of line 18, so an exception of the decoding escapes; only
  the exceptions of \<open>b64decode\<close> are caught.
\<close>

definition read_stdin :: "stdio \<Rightarrow> bytes \<Rightarrow> py_exception + bytes" where
  "read_stdin io stdin =
     (case stdin_decode io stdin of
        Inl e \<Rightarrow> Inl e
      | Inr s \<Rightarrow>
          (let payload = py_strip s in
           if payload = [] then Inr []
           else (case b64decode payload of Inl e \<Rightarrow> Inr [] | Inr bs \<Rightarrow> Inr bs)))"

subsection \<open>\<open>extract_docx\<close> (lines 24 to 38)\<close>

text \<open>The loop of lines 33 to 35 over \<open>root.iter()\<close>, with the list \<open>text_nodes\<close> as state.\<close>

fun collect :: "element list \<Rightarrow> pystr list \<Rightarrow> pystr list" where
  "collect [] text_nodes = text_nodes"
| "collect (element # elements) text_nodes =
     (if py_endswith (tag element) (str_of ''}t'')
         \<and> (case etext element of None \<Rightarrow> False | Some s \<Rightarrow> s \<noteq> [])
      then collect elements
             (text_nodes @ [case etext element of None \<Rightarrow> [] | Some s \<Rightarrow> s])
      else collect elements text_nodes)"

text \<open>The body of the \<open>try\<close> block; \<open>Inl\<close> is an exception raised inside it.\<close>

definition extract_docx_try :: "lib \<Rightarrow> bytes \<Rightarrow> py_exception + pystr" where
  "extract_docx_try L data =
     (case ZipFile L data of
        Inl e \<Rightarrow> Inl e
      | Inr archive \<Rightarrow>
          (case archive (str_of ''word/document.xml'') of
             None \<Rightarrow> Inl KeyError
           | Some (Inl e) \<Rightarrow> Inl e
           | Some (Inr xml_bytes) \<Rightarrow>
               (case fromstring L xml_bytes of
                  Inl e \<Rightarrow> Inl e
                | Inr root \<Rightarrow>
                    Inr (py_strip (py_join (str_of '' '') (collect (iter root) []))))))"

definition extract_docx :: "lib \<Rightarrow> bytes \<Rightarrow> py_exception + pystr" where
  "extract_docx L data =
     (if data = [] then Inr []
      else (case extract_docx_try L data of Inl e \<Rightarrow> Inr [] | Inr s \<Rightarrow> Inr s))"

subsection \<open>\<open>extract_pdf\<close> (lines 41 to 71)\<close>

text \<open>The page loop of lines 50 to 54, with the list \<open>chunks\<close> as state.\<close>

fun page_loop :: "page list \<Rightarrow> pystr list \<Rightarrow> pystr list" where
  "page_loop [] chunks = chunks"
| "page_loop (p # pages) chunks =
     (case p of
        Inl e \<Rightarrow> page_loop pages chunks
      | Inr t \<Rightarrow> page_loop pages (chunks @ [case t of None \<Rightarrow> [] | Some s \<Rightarrow> s]))"

text \<open>The body of the \<open>try\<close> block of lines 45 to 55.\<close>

definition extract_pdf_try :: "lib \<Rightarrow> bytes \<Rightarrow> py_exception + pystr" where
  "extract_pdf_try L data =
     (case PdfReader L of
        None \<Rightarrow> Inl ImportError
      | Some reader \<Rightarrow>
          (case reader data of
             Inl e \<Rightarrow> Inl e
           | Inr pages \<Rightarrow> Inr (py_strip (py_join [10] (page_loop pages [])))))"

text \<open>
  The \<open>for byte in data\<close> loop of lines 61 to 67, with its two lists \<open>printable\<close> and
  \<open>run\<close> passed as state.
\<close>

fun scan :: "bytes \<Rightarrow> pystr list \<Rightarrow> pystr \<Rightarrow> pystr list \<times> pystr" where
  "scan [] printable run = (printable, run)"
| "scan (byte # data) printable run =
     (if 32 \<le> byte \<and> byte \<le> 126 then scan data printable (run @ [chr byte])
      else scan data (if 6 \<le> length run then printable @ [run] else printable) [])"

text \<open>Lines 59 to 71: the scan, the flush of the last run, the cap, join and strip.\<close>

definition extract_pdf_fallback :: "bytes \<Rightarrow> pystr" where
  "extract_pdf_fallback data =
     (case scan data [] [] of
        (printable, run) \<Rightarrow>
          py_strip (py_join (str_of '' '')
            (take 400 (if 6 \<le> length run then printable @ [run] else printable))))"

definition extract_pdf :: "lib \<Rightarrow> bytes \<Rightarrow> py_exception + pystr" where
  "extract_pdf L data =
     (if data = [] then Inr []
      else (case extract_pdf_try L data of
              Inr s \<Rightarrow> Inr s
            | Inl e \<Rightarrow> Inr (extract_pdf_fallback data)))"

subsection \<open>\<open>main\<close> (lines 74 to 85)\<close>

text \<open>
  \<open>main\<close> takes the argument list \<open>sys.argv\<close> and the bytes on standard input and gives
  the bytes written to standard output, or the exception that escapes; then nothing
  has been written. No statement of \<open>main\<close> stands in a \<open>try\<close>: an exception of
  \<open>read_stdin\<close> (line 76) escapes before the MIME type is looked at, and so does an
  exception of \<open>sys.stdout.write\<close> (line 85).
\<close>

definition main :: "lib \<Rightarrow> stdio \<Rightarrow> pystr list \<Rightarrow> bytes \<Rightarrow> py_exception + bytes" where
  "main L io argv stdin =
     (let mime = (if 1 < length argv then argv ! 1 else []) in
      case read_stdin io stdin of
        Inl e \<Rightarrow> Inl e
      | Inr data \<Rightarrow>
          (case (if mime = str_of
                    ''application/vnd.openxmlformats-officedocument.wordprocessingml.document''
                 then extract_docx L data
                 else if mime = str_of ''application/pdf'' then extract_pdf L data
                 else Inr [])
           of Inl e \<Rightarrow> Inl e
            | Inr text \<Rightarrow> stdout_encode io (json_dumps_text text)))"

subsection \<open>The file as shipped (lines 88 to 90)\<close>

text \<open>
  Lines 88 and 89 call \<open>main()\<close> when the file is run. Line 90, the last line of the file,
  is \<open>EOF && chmod +x server/extract_docs.py\<close>: the end of a shell here-document, not
  Python. Python compiles a whole file before it runs its first statement, and its
  grammar has no \<open>&&\<close>: the operator \<open>&\<close> needs an operand on each side. So the compiler
  raises \<open>SyntaxError\<close> for the file, no statement of it runs, and nothing is written
  to standard output.
\<close>

definition line_90 :: string where
  "line_90 = ''EOF && chmod +x server/extract_docs.py''"

fun adjacent_ampersands :: "string \<Rightarrow> bool" where
  "adjacent_ampersands (a # b # s) =
     ((a = CHR ''&'' \<and> b = CHR ''&'') \<or> adjacent_ampersands (b # s))"
| "adjacent_ampersands s = False"

definition module_compiles :: bool where
  "module_compiles \<longleftrightarrow> \<not> adjacent_ampersands line_90"

text \<open>Running the file: \<open>python extract_docs.py\<close> with its arguments and standard input.\<close>

definition extract_docs_py :: "lib \<Rightarrow> stdio \<Rightarrow> pystr list \<Rightarrow> bytes \<Rightarrow> py_exception + bytes" where
  "extract_docs_py L io argv stdin =
     (if module_compiles then main L io argv stdin else Inl SyntaxError)"

section \<open>The specification's notions\<close>

subsection \<open>Printable runs\<close>

text \<open>
  The maximal runs of consecutive bytes in the printable ASCII range 32 to 126, in scan
  order, as the specification describes the fallback: a run starts at a printable byte
  and extends up to the next byte outside the range, or to the end of the input.
\<close>

definition printable_byte :: "byte \<Rightarrow> bool" where
  "printable_byte b \<longleftrightarrow> 32 \<le> b \<and> b \<le> 126"

function maximal_runs :: "bytes \<Rightarrow> bytes list" where
  "maximal_runs [] = []"
| "maximal_runs (b # bs) =
     (if printable_byte b
      then takeWhile printable_byte (b # bs) # maximal_runs (dropWhile printable_byte bs)
      else maximal_runs bs)"
  by pat_completeness auto
termination
  by (relation "measure length") (auto simp: less_Suc_eq_le length_dropWhile_le)

text \<open>The runs of length at least 6, each as a string with one character per byte.\<close>

definition qualifying_fragments :: "bytes \<Rightarrow> pystr list" where
  "qualifying_fragments data =
     map (map chr) (filter (\<lambda>r. 6 \<le> length r) (maximal_runs data))"

definition fallback_spec :: "bytes \<Rightarrow> pystr" where
  "fallback_spec data = py_strip (py_join (str_of '' '') (take 400 (qualifying_fragments data)))"

subsection \<open>Base64 text\<close>

text \<open>
  Well-formed base64 (RFC 4648): characters of the alphabet \<open>A-Z a-z 0-9 + /\<close> only,
  followed by at most two pad characters \<open>=\<close>, with a total length that is a multiple
  of 4.
\<close>

definition is_b64_char :: "nat \<Rightarrow> bool" where
  "is_b64_char c \<longleftrightarrow>
     (65 \<le> c \<and> c \<le> 90) \<or> (97 \<le> c \<and> c \<le> 122) \<or> (48 \<le> c \<and> c \<le> 57) \<or> c = 43 \<or> c = 47"

definition well_formed_base64 :: "pystr \<Rightarrow> bool" where
  "well_formed_base64 s \<longleftrightarrow>
     length s mod 4 = 0
     \<and> list_all is_b64_char (takeWhile (\<lambda>c. c \<noteq> 61) s)
     \<and> (dropWhile (\<lambda>c. c \<noteq> 61) s = [] \<or> dropWhile (\<lambda>c. c \<noteq> 61) s = [61]
        \<or> dropWhile (\<lambda>c. c \<noteq> 61) s = [61, 61])"

text \<open>
  What \<open>b64decode\<close> accepts in its default mode, in the words of its documentation and
  of the padding check. Characters that are neither in the alphabet nor the pad
  character are discarded; what is left are the significant characters. A pad
  character completes a group when the number of alphabet characters before it is 3
  more than a multiple of 4, or 2 more and the significant character just before it
  is also a pad character. The text is accepted when it is ASCII and either some pad
  character completes a group (the rest of the text is then ignored) or the number
  of its alphabet characters is a multiple of 4.
\<close>

definition significant :: "pystr \<Rightarrow> pystr" where
  "significant s = filter (\<lambda>c. is_b64_char c \<or> c = 61) s"

definition pad_completes_group :: "pystr \<Rightarrow> bool" where
  "pad_completes_group pre \<longleftrightarrow>
     length (filter is_b64_char pre) mod 4 = 3
     \<or> (length (filter is_b64_char pre) mod 4 = 2 \<and> pre \<noteq> [] \<and> last pre = 61)"

definition lenient_accepts :: "pystr \<Rightarrow> bool" where
  "lenient_accepts s \<longleftrightarrow>
     list_all (\<lambda>c. c < 128) s
     \<and> (list_ex (\<lambda>i. significant s ! i = 61 \<and> pad_completes_group (take i (significant s)))
           [0..<length (significant s)]
        \<or> length (filter is_b64_char s) mod 4 = 0)"

text \<open>The bytes that \<open>a2b_base64\<close> reads as data: those with an entry in its table.\<close>

definition is_data_byte :: "byte \<Rightarrow> bool" where
  "is_data_byte b \<longleftrightarrow> table_a2b_base64 b \<noteq> None"

text \<open>
  The same notions on the bytes that the loop of \<open>a2b_base64\<close> still has to read, from a
  state with \<open>quad_pos = q\<close> and the pad count \<open>pads\<close>; named for the proofs.
\<close>

definition significant_bytes :: "bytes \<Rightarrow> bytes" where
  "significant_bytes bs = filter (\<lambda>b. is_data_byte b \<or> b = 61) bs"

definition group_done :: "nat \<Rightarrow> nat \<Rightarrow> bytes \<Rightarrow> bool" where
  "group_done q pads p \<longleftrightarrow>
     (q + length (filter is_data_byte p)) mod 4 = 3
     \<or> ((q + length (filter is_data_byte p)) mod 4 = 2
        \<and> (if p = [] then pads = 1 else last p = 61))"

text \<open>The bytes written by a run: none when an exception escapes.\<close>

definition written :: "py_exception + bytes \<Rightarrow> bytes" where
  "written r = (case r of Inl e \<Rightarrow> [] | Inr bs \<Rightarrow> bs)"

subsection \<open>Element names\<close>

text \<open>
  The local name of a tag: the tag after stripping a namespace prefix that ends with
  \<open>}\<close>, or the whole tag when it has no such prefix.
\<close>

definition has_namespace :: "pystr \<Rightarrow> bool" where
  "has_namespace tg \<longleftrightarrow> 125 \<in> set tg"

definition local_name :: "pystr \<Rightarrow> pystr" where
  "local_name tg = rev (takeWhile (\<lambda>c. c \<noteq> 125) (rev tg))"

text \<open>
  The non-empty texts of the elements with local name \<open>t\<close>, in the order of a
  depth-first traversal; \<open>namespaced_only\<close> restricts them to the elements whose tag has
  a namespace prefix.
\<close>

definition t_texts :: "bool \<Rightarrow> element \<Rightarrow> pystr list" where
  "t_texts namespaced_only root =
     concat (map (\<lambda>el. case etext el of
                         None \<Rightarrow> []
                       | Some s \<Rightarrow>
                           if local_name (tag el) = str_of ''t'' \<and> s \<noteq> []
                              \<and> (has_namespace (tag el) \<or> \<not> namespaced_only)
                           then [s] else [])
                 (iter root))"

subsection \<open>Page texts\<close>

text \<open>
  The texts of the pages whose extraction succeeds, in page order; a page without text
  counts as the empty string, a page whose extraction raises contributes nothing.
\<close>

definition page_texts :: "page list \<Rightarrow> pystr list" where
  "page_texts pages =
     concat (map (\<lambda>p. case p of Inl e \<Rightarrow> [] | Inr None \<Rightarrow> [[]] | Inr (Some s) \<Rightarrow> [s]) pages)"

subsection \<open>JSON text\<close>

text \<open>
  A recogniser for the JSON texts (RFC 8259) that are one object with exactly one
  member, named \<open>text\<close>, whose value is a string; it gives the value. \<open>json_string_tail\<close>
  reads a string after its opening quote up to the closing quote: an unescaped
  character is any character from 32 on other than the quote and the backslash, an
  escape is a backslash with one of \<open>" \ / b f n r t\<close> or with \<open>u\<close> and four hex digits.
\<close>

definition hex_value :: "nat \<Rightarrow> nat option" where
  "hex_value c =
     (if 48 \<le> c \<and> c \<le> 57 then Some (c - 48)
      else if 97 \<le> c \<and> c \<le> 102 then Some (c - 87)
      else if 65 \<le> c \<and> c \<le> 70 then Some (c - 55)
      else None)"

definition unescape :: "nat \<Rightarrow> nat option" where
  "unescape e =
     (if e = 34 then Some 34 else if e = 92 then Some 92 else if e = 47 then Some 47
      else if e = 98 then Some 8 else if e = 102 then Some 12 else if e = 110 then Some 10
      else if e = 114 then Some 13 else if e = 116 then Some 9 else None)"

definition hex4 :: "nat \<Rightarrow> nat \<Rightarrow> nat \<Rightarrow> nat \<Rightarrow> nat option" where
  "hex4 h1 h2 h3 h4 =
     Option.bind (hex_value h1) (\<lambda>a. Option.bind (hex_value h2) (\<lambda>b.
     Option.bind (hex_value h3) (\<lambda>c. Option.bind (hex_value h4) (\<lambda>d.
       Some (((a * 16 + b) * 16 + c) * 16 + d)))))"

definition cons_char :: "nat \<Rightarrow> (pystr \<times> pystr) option \<Rightarrow> (pystr \<times> pystr) option" where
  "cons_char c r = map_option (\<lambda>(s, rest). (c # s, rest)) r"

fun json_string_tail :: "pystr \<Rightarrow> (pystr \<times> pystr) option" where
  "json_string_tail [] = None"
| "json_string_tail [c] = (if c = 34 then Some ([], []) else None)"
| "json_string_tail (c # e # r) =
     (if c = 34 then Some ([], e # r)
      else if c = 92 then
        (if e = 117 then
           (case r of
              h1 # h2 # h3 # h4 # r' \<Rightarrow>
                (case hex4 h1 h2 h3 h4 of
                   None \<Rightarrow> None
                 | Some v \<Rightarrow> cons_char v (json_string_tail r'))
            | _ \<Rightarrow> None)
         else (case unescape e of
                 None \<Rightarrow> None
               | Some v \<Rightarrow> cons_char v (json_string_tail r)))
      else if c < 32 then None
      else cons_char c (json_string_tail (e # r)))"

definition json_ws :: "nat \<Rightarrow> bool" where
  "json_ws c \<longleftrightarrow> c = 32 \<or> c = 9 \<or> c = 10 \<or> c = 13"

text \<open>Skip whitespace, then read the one character \<open>ch\<close>.\<close>

definition expect :: "nat \<Rightarrow> pystr \<Rightarrow> pystr option" where
  "expect ch s =
     (case dropWhile json_ws s of
        [] \<Rightarrow> None
      | c # r \<Rightarrow> if c = ch then Some r else None)"

definition json_text_object :: "pystr \<Rightarrow> pystr option" where
  "json_text_object s =
     Option.bind (expect 123 s) (\<lambda>r1.
     Option.bind (expect 34 r1) (\<lambda>r2.
     Option.bind (json_string_tail r2) (\<lambda>(key, r3).
       if key \<noteq> str_of ''text'' then None
       else
     Option.bind (expect 58 r3) (\<lambda>r4.
     Option.bind (expect 34 r4) (\<lambda>r5.
     Option.bind (json_string_tail r5) (\<lambda>(v, r6).
     Option.bind (expect 125 r6) (\<lambda>r7.
       if dropWhile json_ws r7 = [] then Some v else None)))))))"

text \<open>The JSON text \<open>{"text": "body"}\<close> for a given body between the quotes.\<close>

definition envelope :: "pystr \<Rightarrow> pystr" where
  "envelope body =
     str_of ''{'' @ [34] @ str_of ''text'' @ [34] @ str_of '': '' @ [34] @ body @ [34]
       @ str_of ''}''"

subsection \<open>MIME types\<close>

definition docx_mime :: pystr where
  "docx_mime = str_of ''application/vnd.openxmlformats-officedocument.wordprocessingml.document''"

definition pdf_mime :: pystr where
  "pdf_mime = str_of ''application/pdf''"

text \<open>The classifier argument: \<open>sys.argv[1]\<close>, or the empty string when it is absent.\<close>

definition mime_of :: "pystr list \<Rightarrow> pystr" where
  "mime_of argv = (if 1 < length argv then argv ! 1 else [])"

subsection \<open>Scan state\<close>

text \<open>The flush of the last run after the scan (lines 68 and 69), named for the proofs.\<close>

definition flush :: "pystr list \<times> pystr \<Rightarrow> pystr list" where
  "flush st = (case st of (printable, run) \<Rightarrow>
                 if 6 \<le> length run then printable @ [run] else printable)"

section \<open>Example inputs\<close>

text \<open>A runtime without \<open>pypdf\<close>, and in which no archive and no XML document is readable.\<close>

definition lib_without_pypdf :: lib where
  "lib_without_pypdf =
     \<lparr>ZipFile = (\<lambda>data. Inl BadZipFile), fromstring = (\<lambda>xml_bytes. Inl ParseError),
      PdfReader = None\<rparr>"

text \<open>A printable run of 10 bytes, a zero byte, and a printable run of 4 bytes.\<close>

definition run10_sep_run4 :: bytes where
  "run10_sep_run4 = map of_char ''Hello, PDF'' @ [0] @ map of_char ''abcd''"

text \<open>A PDF header line followed by a newline and two bytes above 127.\<close>

definition pdf_header_bytes :: bytes where
  "pdf_header_bytes = map of_char ''%PDF-1.4'' @ [10, 233, 255]"

text \<open>
  A runtime in which the bytes \<open>docx_bytes\<close> open as an archive whose entry
  \<open>word/document.xml\<close> holds \<open>xml_plain\<close>, a document without namespaces, which parses
  to \<open>root_plain\<close>.
\<close>

definition docx_bytes :: bytes where
  "docx_bytes = [80, 75, 3, 4]"

definition xml_plain :: bytes where
  "xml_plain = map of_char ''<doc><t>hello</t></doc>''"

definition root_plain :: element where
  "root_plain = Element (str_of ''doc'') None [Element (str_of ''t'') (Some (str_of ''hello'')) []]"

definition archive_plain :: zip_archive where
  "archive_plain = (\<lambda>name. if name = str_of ''word/document.xml'' then Some (Inr xml_plain) else None)"

definition lib_plain :: lib where
  "lib_plain =
     \<lparr>ZipFile = (\<lambda>data. if data = docx_bytes then Inr archive_plain else Inl BadZipFile),
      fromstring = (\<lambda>xml_bytes. if xml_bytes = xml_plain then Inr root_plain else Inl ParseError),
      PdfReader = None\<rparr>"

text \<open>
  The same with a document in the namespace \<open>w\<close>: two runs with text, one \<open>t\<close> element
  outside the namespace and one empty \<open>w:t\<close> element.
\<close>

definition xml_ns :: bytes where
  "xml_ns = map of_char ''<w:document xmlns:w='' @ [34, 119, 34]
     @ map of_char ''><w:body><w:p><w:r><w:t>Hello</w:t></w:r><w:r><w:t> world </w:t></w:r>''
     @ map of_char ''<t>skipped</t><w:t/></w:p></w:body></w:document>''"

definition root_ns :: element where
  "root_ns =
     Element (str_of ''{w}document'') None
       [Element (str_of ''{w}body'') None
          [Element (str_of ''{w}p'') None
             [Element (str_of ''{w}r'') None
                [Element (str_of ''{w}t'') (Some (str_of ''Hello'')) []],
              Element (str_of ''{w}r'') None
                [Element (str_of ''{w}t'') (Some (str_of '' world '')) []],
              Element (str_of ''t'') (Some (str_of ''skipped'')) [],
              Element (str_of ''{w}t'') None []]]]"

definition archive_ns :: zip_archive where
  "archive_ns = (\<lambda>name. if name = str_of ''word/document.xml'' then Some (Inr xml_ns) else None)"

definition lib_ns :: lib where
  "lib_ns =
     \<lparr>ZipFile = (\<lambda>data. if data = docx_bytes then Inr archive_ns else Inl BadZipFile),
      fromstring = (\<lambda>xml_bytes. if xml_bytes = xml_ns then Inr root_ns else Inl ParseError),
      PdfReader = None\<rparr>"

text \<open>
  A runtime with \<open>pypdf\<close>: \<open>pdf_header_bytes\<close> reads as four pages, of which the second
  fails to extract and the third has no text; every other input fails to read.
\<close>

definition pages_example :: "page list" where
  "pages_example =
     [Inr (Some (str_of ''Page one'')), Inl PdfReadError, Inr None,
      Inr (Some (str_of ''Page four ''))]"

definition lib_with_pypdf :: lib where
  "lib_with_pypdf =
     \<lparr>ZipFile = (\<lambda>data. Inl BadZipFile), fromstring = (\<lambda>xml_bytes. Inl ParseError),
      PdfReader = Some (\<lambda>data. if data = pdf_header_bytes then Inr pages_example
                               else Inl PdfReadError)\<rparr>"

text \<open>
  Argument lists and standard inputs: \<open>stdin_docx\<close> holds the base64 text of
  \<open>docx_bytes\<close>, \<open>stdin_pdf\<close> that of \<open>run10_sep_run4\<close>.
\<close>

definition argv_docx :: "pystr list" where
  "argv_docx = [str_of ''extract_docs.py'', docx_mime]"

definition argv_pdf :: "pystr list" where
  "argv_pdf = [str_of ''extract_docs.py'', pdf_mime]"

definition argv_other :: "pystr list" where
  "argv_other = [str_of ''extract_docs.py'', str_of ''text/plain'']"

definition argv_none :: "pystr list" where
  "argv_none = [str_of ''extract_docs.py'']"

definition stdin_docx :: bytes where
  "stdin_docx = map of_char ''UEsDBA==''"

definition stdin_pdf :: bytes where
  "stdin_pdf = map of_char ''SGVsbG8sIFBERgBhYmNk''"

text \<open>
  Runtimes whose streams use UTF-8 (the default), Latin-1, and UTF-8 for input with
  ASCII for output.
\<close>

definition stdio_utf8 :: stdio where
  "stdio_utf8 = \<lparr>stdin_decode = utf8_decode, stdout_encode = utf8_encode\<rparr>"


definition stdio_ascii_out :: stdio where
  "stdio_ascii_out = \<lparr>stdin_decode = utf8_decode, stdout_encode = ascii_encode\<rparr>"

text \<open>
  A runtime in which \<open>docx_bytes\<close> is a document in the namespace \<open>w\<close> with the one text
  run \<open>caf\<close> followed by the character 233 (e with acute accent).
\<close>

definition xml_accent :: bytes where
  "xml_accent = map of_char ''<w:document xmlns:w='' @ [34, 119, 34]
     @ map of_char ''><w:t>caf'' @ [195, 169] @ map of_char ''</w:t></w:document>''"

definition root_accent :: element where
  "root_accent =
     Element (str_of ''{w}document'') None
       [Element (str_of ''{w}t'') (Some (str_of ''caf'' @ [233])) []]"

definition archive_accent :: zip_archive where
  "archive_accent =
     (\<lambda>name. if name = str_of ''word/document.xml'' then Some (Inr xml_accent) else None)"

definition lib_accent :: lib where
  "lib_accent =
     \<lparr>ZipFile = (\<lambda>data. if data = docx_bytes then Inr archive_accent else Inl BadZipFile),
      fromstring = (\<lambda>xml_bytes. if xml_bytes = xml_accent then Inr root_accent
                                 else Inl ParseError),
      PdfReader = None\<rparr>"

section \<open>The printable-run fallback of \<open>extract_pdf\<close>\<close>

lemma qualifying_fragments_unfold:
  "qualifying_fragments bs =
     (if 6 \<le> length (takeWhile printable_byte bs)
      then [map chr (takeWhile printable_byte bs)] else [])
     @ qualifying_fragments (dropWhile printable_byte bs)"
  by (cases bs) (simp_all add: qualifying_fragments_def)

lemma fallback_flush:
  "extract_pdf_fallback data =
     py_strip (py_join (str_of '' '') (take 400 (flush (scan data [] []))))"
  by (simp add: extract_pdf_fallback_def flush_def split: prod.splits)

lemma scan_flush:
  "flush (scan bs P R)
   = P @ (if 6 \<le> length R + length (takeWhile printable_byte bs)
          then [R @ map chr (takeWhile printable_byte bs)] else [])
       @ qualifying_fragments (dropWhile printable_byte bs)"
proof (induction bs arbitrary: P R)
  case Nil
  show ?case by (simp add: qualifying_fragments_def flush_def)
next
  case (Cons b bs)
  show ?case
  proof (cases "printable_byte b")
    case True
    then have "scan (b # bs) P R = scan bs P (R @ [chr b])"
      by (simp add: printable_byte_def)
    then show ?thesis using True Cons.IH [of P "R @ [chr b]"] by simp
  next
    case False
    let ?P = "if 6 \<le> length R then P @ [R] else P"
    from False have "scan (b # bs) P R = scan bs ?P []"
      by (auto simp: printable_byte_def)
    then have "flush (scan (b # bs) P R) = ?P @ qualifying_fragments bs"
      using Cons.IH [of ?P "[]"] qualifying_fragments_unfold [of bs] by simp
    moreover have "qualifying_fragments (b # bs) = qualifying_fragments bs"
      using False by (simp add: qualifying_fragments_def)
    ultimately show ?thesis using False by simp
  qed
qed

lemma fallback_eq_spec: "extract_pdf_fallback data = fallback_spec data"
proof -
  have "flush (scan data [] []) = qualifying_fragments data"
    using scan_flush [of data "[]" "[]"] qualifying_fragments_unfold [of data] by simp
  then show ?thesis
    by (simp add: fallback_flush fallback_spec_def)
qed

lemma set_py_strip: "set (py_strip s) \<subseteq> set s"
proof -
  have "set (py_strip s) \<subseteq> set (dropWhile py_isspace s)"
    unfolding py_strip_def using set_dropWhileD [of _ py_isspace "rev (dropWhile py_isspace s)"]
    by auto
  also have "\<dots> \<subseteq> set s" using set_dropWhileD [of _ py_isspace s] by auto
  finally show ?thesis .
qed

lemma set_py_join: "set (py_join sep xs) \<subseteq> set sep \<union> (\<Union>x \<in> set xs. set x)"
  by (induction sep xs rule: py_join.induct) auto

lemma maximal_runs_printable:
  "r \<in> set (maximal_runs data) \<Longrightarrow> r \<noteq> [] \<and> (\<forall>b \<in> set r. printable_byte b)"
proof (induction data rule: maximal_runs.induct)
  case 1
  then show ?case by simp
next
  case (2 b bs)
  show ?case
  proof (cases "printable_byte b")
    case True
    with "2.prems" have "r = b # takeWhile printable_byte bs
        \<or> r \<in> set (maximal_runs (dropWhile printable_byte bs))"
      by simp
    then show ?thesis
    proof
      assume "r = b # takeWhile printable_byte bs"
      then show ?thesis using True by (auto dest: set_takeWhileD)
    next
      assume "r \<in> set (maximal_runs (dropWhile printable_byte bs))"
      then show ?thesis using "2.IH"(1) [OF True] by blast
    qed
  next
    case False
    with "2.prems" have "r \<in> set (maximal_runs bs)" by simp
    then show ?thesis using "2.IH"(2) [OF False] by blast
  qed
qed

lemma chr_printable: "printable_byte b \<Longrightarrow> 32 \<le> chr b \<and> chr b \<le> 126"
  by (simp add: printable_byte_def chr_def word_le_nat_alt)

lemma qualifying_fragments_chars:
  assumes "f \<in> set (qualifying_fragments data)" "c \<in> set f"
  shows "32 \<le> c \<and> c \<le> 126"
proof -
  from assms(1) obtain r where r: "r \<in> set (maximal_runs data)" and f: "f = map chr r"
    by (auto simp: qualifying_fragments_def)
  from assms(2) f obtain b where "b \<in> set r" "c = chr b" by auto
  with maximal_runs_printable [OF r] show ?thesis by (simp add: chr_printable)
qed

lemma fallback_chars:
  assumes "c \<in> set (extract_pdf_fallback data)"
  shows "32 \<le> c \<and> c \<le> 126"
proof -
  from assms have "c \<in> set (py_join (str_of '' '') (take 400 (qualifying_fragments data)))"
    using set_py_strip by (auto simp: fallback_eq_spec fallback_spec_def)
  then have "c \<in> set (str_of '' '') \<or>
             (\<exists>f \<in> set (take 400 (qualifying_fragments data)). c \<in> set f)"
    using set_py_join [of "str_of '' ''" "take 400 (qualifying_fragments data)"] by auto
  then show ?thesis
  proof
    assume "c \<in> set (str_of '' '')"
    then show ?thesis by (simp add: str_of_def)
  next
    assume "\<exists>f \<in> set (take 400 (qualifying_fragments data)). c \<in> set f"
    then obtain f where "f \<in> set (qualifying_fragments data)" "c \<in> set f"
      by (auto dest: in_set_takeD)
    then show ?thesis by (rule qualifying_fragments_chars)
  qed
qed

text \<open>
  Claim C4. For every non-empty byte sequence on which the library tier raises (the
  library is missing, or reading the document fails), \<open>extract_pdf\<close> returns the
  stripped, single-space-joined sequence of the first at most 400 maximal runs of
  printable bytes of length at least 6, in scan order, each converted to a string with
  one character per byte. The cap is the \<open>take 400\<close>: of more than 400 qualifying runs
  exactly the first 400 are joined.
\<close>

theorem extract_pdf_fallback_runs:
  assumes "data \<noteq> []" and "extract_pdf_try L data = Inl e"
  shows "extract_pdf L data =
           Inr (py_strip (py_join (str_of '' '')
                  (take 400 (map (map chr)
                     (filter (\<lambda>r. 6 \<le> length r) (maximal_runs data))))))"
  using assms
  by (simp add: extract_pdf_def fallback_eq_spec fallback_spec_def qualifying_fragments_def)

theorem extract_pdf_fallback_runs_witness:
  "run10_sep_run4 \<noteq> []
   \<and> extract_pdf_try lib_without_pypdf run10_sep_run4 = Inl ImportError
   \<and> extract_pdf lib_without_pypdf run10_sep_run4 = Inr (str_of ''Hello, PDF'')"
proof -
  have a: "run10_sep_run4 \<noteq> []" by (simp add: run10_sep_run4_def)
  have b: "extract_pdf_try lib_without_pypdf run10_sep_run4 = Inl ImportError"
    by (simp add: extract_pdf_try_def lib_without_pypdf_def)
  show ?thesis
    using a b extract_pdf_fallback_runs [OF a b]
    by (simp add: run10_sep_run4_def printable_byte_def chr_def str_of_def
          py_strip_def py_isspace_def)
qed

text \<open>
  Claim C9. Whenever the fallback produces the result of \<open>extract_pdf\<close>, every
  character of the returned string has a code point from 32 to 126: the output has no
  newline, no control character and no character outside ASCII.
\<close>

theorem fallback_output_printable_ascii:
  assumes "extract_pdf_try L data = Inl e"
  shows "\<exists>s. extract_pdf L data = Inr s \<and> (\<forall>c \<in> set s. 32 \<le> c \<and> c \<le> 126)"
  using assms fallback_chars by (auto simp: extract_pdf_def)

theorem fallback_output_printable_ascii_witness:
  "extract_pdf_try lib_without_pypdf pdf_header_bytes = Inl ImportError
   \<and> (\<exists>s. extract_pdf lib_without_pypdf pdf_header_bytes = Inr s
          \<and> list_all (\<lambda>c. 32 \<le> c \<and> c \<le> 126) s \<and> s = str_of ''%PDF-1.4'')"
proof -
  have a: "extract_pdf_try lib_without_pypdf pdf_header_bytes = Inl ImportError"
    by (simp add: extract_pdf_try_def lib_without_pypdf_def)
  have n: "pdf_header_bytes \<noteq> []" by (simp add: pdf_header_bytes_def)
  have f: "extract_pdf_fallback pdf_header_bytes = str_of ''%PDF-1.4''"
    by (simp add: extract_pdf_fallback_def pdf_header_bytes_def chr_def
          str_of_def py_strip_def py_isspace_def)
  have b: "extract_pdf lib_without_pypdf pdf_header_bytes = Inr (str_of ''%PDF-1.4'')"
    by (simp add: extract_pdf_def a n f)
  show ?thesis
    using a b fallback_output_printable_ascii [OF a] by (auto simp: list_all_iff)
qed

section \<open>The library tier of \<open>extract_pdf\<close>\<close>

lemma page_loop_texts: "page_loop pages chunks = chunks @ page_texts pages"
proof (induction pages arbitrary: chunks)
  case Nil
  show ?case by (simp add: page_texts_def)
next
  case (Cons p pages)
  show ?case
  proof (cases p)
    case (Inl e)
    then show ?thesis using Cons.IH [of chunks] by (simp add: page_texts_def)
  next
    case (Inr t)
    then show ?thesis
      using Cons.IH [of "chunks @ [case t of None \<Rightarrow> [] | Some s \<Rightarrow> s]"]
      by (cases t) (simp_all add: page_texts_def)
  qed
qed

text \<open>
  Claim C7. In the library tier a page whose text extraction raises is skipped: it
  contributes nothing, while the texts of the other pages (the empty string for a page
  without text) are joined with newlines and stripped. When \<open>pypdf\<close> cannot be imported,
  or building the reader over the bytes raises, \<open>extract_pdf\<close> returns the result of the
  printable-run fallback on the same bytes, and does not raise.
\<close>

theorem tier1_degradation:
  assumes "data \<noteq> []"
  shows "(\<forall>reader pages. PdfReader L = Some reader \<longrightarrow> reader data = Inr pages \<longrightarrow>
            extract_pdf L data = Inr (py_strip (py_join [10] (page_texts pages))))
       \<and> (PdfReader L = None \<longrightarrow> extract_pdf L data = Inr (extract_pdf_fallback data))
       \<and> (\<forall>reader e. PdfReader L = Some reader \<longrightarrow> reader data = Inl e \<longrightarrow>
            extract_pdf L data = Inr (extract_pdf_fallback data))"
  using assms by (simp add: extract_pdf_def extract_pdf_try_def page_loop_texts)

theorem tier1_degradation_witness:
  "pdf_header_bytes \<noteq> [] \<and> run10_sep_run4 \<noteq> []
   \<and> extract_pdf lib_with_pypdf pdf_header_bytes
       = Inr (str_of ''Page one'' @ [10, 10] @ str_of ''Page four'')
   \<and> extract_pdf lib_without_pypdf pdf_header_bytes = Inr (str_of ''%PDF-1.4'')
   \<and> extract_pdf lib_with_pypdf run10_sep_run4 = Inr (str_of ''Hello, PDF'')"
proof -
  have n1: "pdf_header_bytes \<noteq> []" by (simp add: pdf_header_bytes_def)
  have n2: "run10_sep_run4 \<noteq> []" by (simp add: run10_sep_run4_def)
  have ne: "run10_sep_run4 \<noteq> pdf_header_bytes"
    by (simp add: run10_sep_run4_def pdf_header_bytes_def)
  have f1: "extract_pdf_fallback pdf_header_bytes = str_of ''%PDF-1.4''"
    by (simp add: extract_pdf_fallback_def pdf_header_bytes_def chr_def
          str_of_def py_strip_def py_isspace_def)
  have f2: "extract_pdf_fallback run10_sep_run4 = str_of ''Hello, PDF''"
    by (simp add: extract_pdf_fallback_def run10_sep_run4_def chr_def
          str_of_def py_strip_def py_isspace_def)
  have t: "py_strip (py_join [10] (page_texts pages_example))
             = str_of ''Page one'' @ [10, 10] @ str_of ''Page four''"
    by (simp add: page_texts_def pages_example_def str_of_def py_strip_def py_isspace_def)
  have a: "extract_pdf lib_with_pypdf pdf_header_bytes
             = Inr (py_strip (py_join [10] (page_texts pages_example)))"
    using tier1_degradation [OF n1, of lib_with_pypdf] by (simp add: lib_with_pypdf_def)
  have b: "extract_pdf lib_without_pypdf pdf_header_bytes = Inr (extract_pdf_fallback pdf_header_bytes)"
    using tier1_degradation [OF n1, of lib_without_pypdf] by (simp add: lib_without_pypdf_def)
  have c: "extract_pdf lib_with_pypdf run10_sep_run4 = Inr (extract_pdf_fallback run10_sep_run4)"
    using tier1_degradation [OF n2, of lib_with_pypdf] ne by (simp add: lib_with_pypdf_def)
  show ?thesis using n1 n2 a b c by (simp only: t f1 f2 simp_thms)
qed

section \<open>\<open>extract_docx\<close>\<close>

text \<open>
  Claim C6. For every byte sequence and every behaviour of the libraries, \<open>extract_docx\<close>
  and \<open>extract_pdf\<close> return a string and raise nothing. Whenever the \<open>try\<close> block of
  \<open>extract_docx\<close> raises (the archive does not open, the entry \<open>word/document.xml\<close> is
  missing or unreadable, the XML does not parse), \<open>extract_docx\<close> returns the empty
  string.
\<close>

theorem extractors_never_raise:
  "(\<exists>s. extract_docx L data = Inr s) \<and> (\<exists>s. extract_pdf L data = Inr s)
   \<and> (\<forall>e. extract_docx_try L data = Inl e \<longrightarrow> extract_docx L data = Inr [])
   \<and> (\<forall>e. ZipFile L data = Inl e \<longrightarrow> extract_docx L data = Inr [])
   \<and> (\<forall>archive. ZipFile L data = Inr archive \<longrightarrow>
         archive (str_of ''word/document.xml'') = None \<longrightarrow> extract_docx L data = Inr [])
   \<and> (\<forall>archive e. ZipFile L data = Inr archive \<longrightarrow>
         archive (str_of ''word/document.xml'') = Some (Inl e) \<longrightarrow> extract_docx L data = Inr [])
   \<and> (\<forall>archive xml_bytes e. ZipFile L data = Inr archive \<longrightarrow>
         archive (str_of ''word/document.xml'') = Some (Inr xml_bytes) \<longrightarrow>
         fromstring L xml_bytes = Inl e \<longrightarrow> extract_docx L data = Inr [])"
proof -
  have 1: "\<exists>s. extract_docx L data = Inr s"
    by (simp add: extract_docx_def split: sum.splits)
  have 2: "\<exists>s. extract_pdf L data = Inr s"
    by (simp add: extract_pdf_def split: sum.splits)
  have 3: "\<forall>e. extract_docx_try L data = Inl e \<longrightarrow> extract_docx L data = Inr []"
    by (auto simp: extract_docx_def)
  have 4: "\<forall>e. ZipFile L data = Inl e \<longrightarrow> extract_docx L data = Inr []"
    by (auto simp: extract_docx_def extract_docx_try_def)
  have 5: "\<forall>archive. ZipFile L data = Inr archive \<longrightarrow>
         archive (str_of ''word/document.xml'') = None \<longrightarrow> extract_docx L data = Inr []"
    by (auto simp: extract_docx_def extract_docx_try_def)
  have 6: "\<forall>archive e. ZipFile L data = Inr archive \<longrightarrow>
         archive (str_of ''word/document.xml'') = Some (Inl e) \<longrightarrow> extract_docx L data = Inr []"
    by (auto simp: extract_docx_def extract_docx_try_def)
  have 7: "\<forall>archive xml_bytes e. ZipFile L data = Inr archive \<longrightarrow>
         archive (str_of ''word/document.xml'') = Some (Inr xml_bytes) \<longrightarrow>
         fromstring L xml_bytes = Inl e \<longrightarrow> extract_docx L data = Inr []"
    by (auto simp: extract_docx_def extract_docx_try_def)
  from 1 2 3 4 5 6 7 show ?thesis by blast
qed

theorem extractors_never_raise_witness:
  "ZipFile lib_without_pypdf run10_sep_run4 = Inl BadZipFile
   \<and> extract_docx lib_without_pypdf run10_sep_run4 = Inr []
   \<and> extract_pdf lib_without_pypdf run10_sep_run4 = Inr (str_of ''Hello, PDF'')
   \<and> ZipFile (lib_plain\<lparr>fromstring := \<lambda>xml_bytes. Inl ParseError\<rparr>) docx_bytes = Inr archive_plain
   \<and> archive_plain (str_of ''word/document.xml'') = Some (Inr xml_plain)
   \<and> extract_docx (lib_plain\<lparr>fromstring := \<lambda>xml_bytes. Inl ParseError\<rparr>) docx_bytes = Inr []
   \<and> extract_docx (lib_plain\<lparr>ZipFile := \<lambda>data. Inr (\<lambda>name. None)\<rparr>) docx_bytes = Inr []
   \<and> extract_docx (lib_plain\<lparr>ZipFile := \<lambda>data. Inr (\<lambda>name. Some (Inl BadZipFile))\<rparr>) docx_bytes
       = Inr []"
proof -
  have z: "ZipFile lib_without_pypdf run10_sep_run4 = Inl BadZipFile"
    by (simp add: lib_without_pypdf_def)
  have a: "extract_docx lib_without_pypdf run10_sep_run4 = Inr []"
    using extractors_never_raise [of lib_without_pypdf run10_sep_run4] z by blast
  have n: "run10_sep_run4 \<noteq> []" by (simp add: run10_sep_run4_def)
  have t: "extract_pdf_try lib_without_pypdf run10_sep_run4 = Inl ImportError"
    by (simp add: extract_pdf_try_def lib_without_pypdf_def)
  have f: "extract_pdf_fallback run10_sep_run4 = str_of ''Hello, PDF''"
    by (simp add: extract_pdf_fallback_def run10_sep_run4_def chr_def
          str_of_def py_strip_def py_isspace_def)
  have b: "extract_pdf lib_without_pypdf run10_sep_run4 = Inr (str_of ''Hello, PDF'')"
    by (simp add: extract_pdf_def n t f)
  let ?L2 = "lib_plain\<lparr>fromstring := \<lambda>xml_bytes. Inl ParseError\<rparr>"
  have z2: "ZipFile ?L2 docx_bytes = Inr archive_plain" by (simp add: lib_plain_def)
  have e2: "archive_plain (str_of ''word/document.xml'') = Some (Inr xml_plain)"
    by (simp add: archive_plain_def)
  have p2: "fromstring ?L2 xml_plain = Inl ParseError" by simp
  have c: "extract_docx ?L2 docx_bytes = Inr []"
    using extractors_never_raise [of ?L2 docx_bytes] z2 e2 p2 by blast
  let ?L3 = "lib_plain\<lparr>ZipFile := \<lambda>data. Inr (\<lambda>name. None)\<rparr>"
  have d: "extract_docx ?L3 docx_bytes = Inr []"
    using extractors_never_raise [of ?L3 docx_bytes] by simp
  let ?L4 = "lib_plain\<lparr>ZipFile := \<lambda>data. Inr (\<lambda>name. Some (Inl BadZipFile))\<rparr>"
  have e: "extract_docx ?L4 docx_bytes = Inr []"
    using extractors_never_raise [of ?L4 docx_bytes] by simp
  from z a b z2 e2 c d e show ?thesis by blast
qed

lemma endswith_brace_t:
  "py_endswith tg (str_of ''}t'') \<longleftrightarrow> has_namespace tg \<and> local_name tg = str_of ''t''"
proof
  assume "py_endswith tg (str_of ''}t'')"
  then have len: "2 \<le> length tg" and d: "drop (length tg - 2) tg = [125, 116]"
    by (simp_all add: py_endswith_def str_of_def numeral_2_eq_2)
  have "tg = take (length tg - 2) tg @ [125, 116]"
    using append_take_drop_id [of "length tg - 2" tg] d by simp
  then obtain ys where tg: "tg = ys @ [125, 116]" ..
  then show "has_namespace tg \<and> local_name tg = str_of ''t''"
    by (simp add: has_namespace_def local_name_def str_of_def)
next
  assume a: "has_namespace tg \<and> local_name tg = str_of ''t''"
  let ?P = "\<lambda>c::nat. c \<noteq> 125"
  from a have tw: "takeWhile ?P (rev tg) = [116]"
    by (simp add: local_name_def str_of_def rev_swap)
  from a have "\<not> (\<forall>c \<in> set (rev tg). ?P c)" by (auto simp: has_namespace_def)
  then have "dropWhile ?P (rev tg) \<noteq> []" by simp
  then obtain x xs where dw: "dropWhile ?P (rev tg) = x # xs" by (cases "dropWhile ?P (rev tg)") auto
  then have "x = 125" using hd_dropWhile [of ?P "rev tg"] by auto
  with tw dw have "rev tg = [116] @ 125 # xs"
    using takeWhile_dropWhile_id [of ?P "rev tg"] by simp
  then have "tg = rev xs @ [125, 116]" by (simp add: rev_swap)
  then show "py_endswith tg (str_of ''}t'')"
    by (simp add: py_endswith_def str_of_def)
qed

lemma collect_t_texts:
  "collect els acc = acc @
     concat (map (\<lambda>el. case etext el of
                         None \<Rightarrow> []
                       | Some s \<Rightarrow>
                           if local_name (tag el) = str_of ''t'' \<and> s \<noteq> []
                              \<and> (has_namespace (tag el) \<or> \<not> True)
                           then [s] else []) els)"
proof (induction els arbitrary: acc)
  case Nil
  show ?case by simp
next
  case (Cons el els)
  show ?case
  proof (cases "etext el")
    case None
    then show ?thesis using Cons.IH [of acc] by simp
  next
    case (Some s)
    show ?thesis
    proof (cases "py_endswith (tag el) (str_of ''}t'') \<and> s \<noteq> []")
      case True
      then have "collect (el # els) acc = collect els (acc @ [s])" using Some by simp
      moreover from True have "has_namespace (tag el) \<and> local_name (tag el) = str_of ''t''"
        by (simp add: endswith_brace_t)
      ultimately show ?thesis using Some True Cons.IH [of "acc @ [s]"] by simp
    next
      case False
      then have "collect (el # els) acc = collect els acc" using Some by auto
      moreover from False have "\<not> (local_name (tag el) = str_of ''t'' \<and> s \<noteq> []
            \<and> has_namespace (tag el))"
        by (auto simp: endswith_brace_t)
      ultimately show ?thesis using Some Cons.IH [of acc] by auto
    qed
  qed
qed

text \<open>
  Claim C3, as the code has it. For bytes that open as an archive whose entry
  \<open>word/document.xml\<close> parses, \<open>extract_docx\<close> returns the stripped, space-joined
  non-empty texts, in depth-first document order, of the elements whose tag has a
  namespace prefix and the local name \<open>t\<close>. The test of the code is
  \<open>tag.endswith('}t')\<close>, which an element \<open>t\<close> without a namespace prefix does not pass.
\<close>

theorem docx_text_of_namespaced_runs:
  assumes "data \<noteq> []" and "ZipFile L data = Inr archive"
    and "archive (str_of ''word/document.xml'') = Some (Inr xml_bytes)"
    and "fromstring L xml_bytes = Inr root"
  shows "extract_docx L data = Inr (py_strip (py_join (str_of '' '') (t_texts True root)))"
  using assms
  by (simp add: extract_docx_def extract_docx_try_def collect_t_texts [of _ "[]", simplified] t_texts_def)

theorem docx_text_of_namespaced_runs_witness:
  "docx_bytes \<noteq> [] \<and> ZipFile lib_ns docx_bytes = Inr archive_ns
   \<and> archive_ns (str_of ''word/document.xml'') = Some (Inr xml_ns)
   \<and> fromstring lib_ns xml_ns = Inr root_ns
   \<and> extract_docx lib_ns docx_bytes = Inr (str_of ''Hello  world'')"
proof -
  have a: "docx_bytes \<noteq> []" by (simp add: docx_bytes_def)
  have b: "ZipFile lib_ns docx_bytes = Inr archive_ns" by (simp add: lib_ns_def)
  have c: "archive_ns (str_of ''word/document.xml'') = Some (Inr xml_ns)"
    by (simp add: archive_ns_def)
  have d: "fromstring lib_ns xml_ns = Inr root_ns" by (simp add: lib_ns_def)
  have t: "py_strip (py_join (str_of '' '') (t_texts True root_ns)) = str_of ''Hello  world''"
    by (simp add: t_texts_def root_ns_def local_name_def has_namespace_def str_of_def
          py_strip_def py_isspace_def)
  show ?thesis
    using a b c d docx_text_of_namespaced_runs [OF a b c d] by (simp only: t simp_thms)
qed

text \<open>
  Claim C3 as stated also counts an element whose whole tag is \<open>t\<close>. For the document
  \<open><doc><t>hello</t></doc>\<close> the stated text is \<open>hello\<close>, and \<open>extract_docx\<close> returns the
  empty string.
\<close>

theorem docx_plain_t_counterexample:
  "docx_bytes \<noteq> [] \<and> ZipFile lib_plain docx_bytes = Inr archive_plain
   \<and> archive_plain (str_of ''word/document.xml'') = Some (Inr xml_plain)
   \<and> fromstring lib_plain xml_plain = Inr root_plain
   \<and> extract_docx lib_plain docx_bytes = Inr []
   \<and> py_strip (py_join (str_of '' '') (t_texts False root_plain)) = str_of ''hello''"
proof -
  have a: "docx_bytes \<noteq> []" by (simp add: docx_bytes_def)
  have b: "ZipFile lib_plain docx_bytes = Inr archive_plain" by (simp add: lib_plain_def)
  have c: "archive_plain (str_of ''word/document.xml'') = Some (Inr xml_plain)"
    by (simp add: archive_plain_def)
  have d: "fromstring lib_plain xml_plain = Inr root_plain" by (simp add: lib_plain_def)
  have e: "collect (iter root_plain) [] = []"
    by (simp add: root_plain_def py_endswith_def str_of_def)
  have f: "extract_docx lib_plain docx_bytes = Inr []"
    by (simp add: extract_docx_def extract_docx_try_def a b c d e py_strip_def)
  have g: "py_strip (py_join (str_of '' '') (t_texts False root_plain)) = str_of ''hello''"
    by (simp add: t_texts_def root_plain_def local_name_def has_namespace_def str_of_def
          py_strip_def py_isspace_def)
  from a b c d f g show ?thesis by blast
qed

section \<open>\<open>read_stdin\<close>\<close>

lemma unat_of_nat_byte: "c < 256 \<Longrightarrow> unat (of_nat c :: byte) = c"
  by (simp add: unat_of_nat)

lemma table_is_b64_char:
  "c < 256 \<Longrightarrow> is_data_byte (of_nat c) \<longleftrightarrow> is_b64_char c"
  by (simp add: is_data_byte_def table_a2b_base64_def unat_of_nat_byte is_b64_char_def Let_def)

lemma pad_byte: "c < 256 \<Longrightarrow> (of_nat c :: byte) = 61 \<longleftrightarrow> c = 61"
proof
  assume c: "c < 256" and "(of_nat c :: byte) = 61"
  then have "unat (of_nat c :: byte) = unat (61 :: byte)" by simp
  with c show "c = 61" by (simp add: unat_of_nat_byte)
qed simp

lemma data_count:
  "\<forall>c \<in> set s. c < 128 \<Longrightarrow>
   length (filter is_data_byte (map of_nat s)) = length (filter is_b64_char s)"
proof (induction s)
  case Nil
  show ?case by simp
next
  case (Cons c s)
  then have "c < 256" by simp
  then show ?case using Cons by (simp add: table_is_b64_char)
qed

lemma table_pad: "\<not> is_data_byte 61"
  by (simp add: is_data_byte_def table_a2b_base64_def)

lemma loop_few_data_empty:
  "a2b_base64_loop q l p [] bs = Inr out \<Longrightarrow>
   q + length (filter is_data_byte bs) < 2 \<Longrightarrow> out = []"
proof (induction bs arbitrary: q l p)
  case Nil
  then show ?case by (simp split: if_splits)
next
  case (Cons b bs)
  show ?case
  proof (cases "b = 61")
    case True
    with Cons.prems have "q < 2" by simp
    with Cons.prems True have "a2b_base64_loop q l p [] bs = Inr out" by simp
    moreover from Cons.prems True
    have "q + length (filter is_data_byte bs) < 2"
      by (simp add: table_pad)
    ultimately show ?thesis by (rule Cons.IH)
  next
    case False
    show ?thesis
    proof (cases "table_a2b_base64 b")
      case None
      with Cons.prems False have "a2b_base64_loop q l p [] bs = Inr out" by simp
      moreover from None have "\<not> is_data_byte b" by (simp add: is_data_byte_def)
      with Cons.prems(2) have "q + length (filter is_data_byte bs) < 2" by simp
      ultimately show ?thesis by (rule Cons.IH)
    next
      case (Some v)
      then have "is_data_byte b" by (simp add: is_data_byte_def)
      with Cons.prems(2) have q: "q = 0"
        and n: "1 + length (filter is_data_byte bs) < 2" by simp_all
      from Cons.prems False Some q have "a2b_base64_loop 1 v 0 [] bs = Inr out" by simp
      then show ?thesis using n by (rule Cons.IH)
    qed
  qed
qed

lemma split_at_Cons:
  "(\<exists>p t. x # s = p @ y # t \<and> P p) \<longleftrightarrow>
   (x = y \<and> P []) \<or> (\<exists>p t. s = p @ y # t \<and> P (x # p))"
proof
  assume "\<exists>p t. x # s = p @ y # t \<and> P p"
  then obtain p t where e: "x # s = p @ y # t" and P: "P p" by blast
  show "(x = y \<and> P []) \<or> (\<exists>p t. s = p @ y # t \<and> P (x # p))"
  proof (cases p)
    case Nil
    with e P show ?thesis by simp
  next
    case (Cons a p')
    with e have "x = a" and "s = p' @ y # t" by simp_all
    with P Cons show ?thesis by blast
  qed
next
  assume "(x = y \<and> P []) \<or> (\<exists>p t. s = p @ y # t \<and> P (x # p))"
  then show "\<exists>p t. x # s = p @ y # t \<and> P p"
  proof
    assume "x = y \<and> P []"
    then have "x # s = [] @ y # s \<and> P []" by simp
    then show ?thesis by blast
  next
    assume "\<exists>p t. s = p @ y # t \<and> P (x # p)"
    then obtain p t where "s = p @ y # t" and "P (x # p)" by blast
    then have "x # s = (x # p) @ y # t \<and> P (x # p)" by simp
    then show ?thesis by blast
  qed
qed

lemma group_done_Nil: "q < 4 \<Longrightarrow> group_done q pads [] \<longleftrightarrow> q = 3 \<or> (q = 2 \<and> pads = 1)"
  by (simp add: group_done_def)

lemma group_done_pad:
  assumes "\<not> (q = 3 \<or> (q = 2 \<and> pads = 1))" and "q < 4" and "pads \<le> 1"
  shows "group_done q pads (61 # p) = group_done q (if 2 \<le> q then pads + 1 else pads) p"
proof (cases p)
  case Nil
  from assms have "q = 2 \<longrightarrow> pads = 0" by auto
  with assms Nil show ?thesis by (auto simp: group_done_def table_pad)
next
  case (Cons a p')
  then show ?thesis by (simp add: group_done_def table_pad)
qed

lemma group_done_data:
  assumes "is_data_byte b"
  shows "group_done q pads (b # p) = group_done ((q + 1) mod 4) 0 p"
proof -
  from assms have b: "b \<noteq> 61" using table_pad by auto
  have e: "(q + length (filter is_data_byte (b # p))) mod 4
             = ((q + 1) mod 4 + length (filter is_data_byte p)) mod 4"
    using assms by (simp add: mod_simps)
  have l: "(if b # p = [] then pads = 1 else last (b # p) = 61)
             = (if p = [] then (0::nat) = 1 else last p = 61)"
    using b by (cases p) simp_all
  show ?thesis unfolding group_done_def e l by (rule refl)
qed

lemma significant_bytes_Cons:
  "significant_bytes (b # bs) =
     (if is_data_byte b \<or> b = 61 then b # significant_bytes bs else significant_bytes bs)"
  by (simp add: significant_bytes_def)

lemma loop_accepts_iff:
  "q < 4 \<Longrightarrow> pads \<le> 1 \<Longrightarrow> (pads = 1 \<longrightarrow> q = 2) \<Longrightarrow>
   (\<exists>r. a2b_base64_loop q l pads out bs = Inr r) \<longleftrightarrow>
   ((\<exists>p t. significant_bytes bs = p @ 61 # t \<and> group_done q pads p)
    \<or> (q + length (filter is_data_byte bs)) mod 4 = 0)"
proof (induction bs arbitrary: q l pads out)
  case Nil
  then show ?case by (simp add: significant_bytes_def)
next
  case (Cons b bs)
  note inv = Cons.prems
  show ?case
  proof (cases "b = 61")
    case True
    show ?thesis
    proof (cases "q = 3 \<or> (q = 2 \<and> pads = 1)")
      case stop: True
      then have "2 \<le> q \<and> 4 \<le> q + (pads + 1)" by auto
      then have "a2b_base64_loop q l pads out (b # bs) = Inr out" using True by simp
      moreover have sb: "significant_bytes (b # bs) = 61 # significant_bytes bs"
        using True by (simp add: significant_bytes_Cons)
      have "group_done q pads []" using stop inv(1) by (simp add: group_done_Nil)
      then have "\<exists>p t. significant_bytes (b # bs) = p @ 61 # t \<and> group_done q pads p"
        unfolding sb split_at_Cons by simp
      ultimately show ?thesis by simp
    next
      case go: False
      let ?pads = "if 2 \<le> q then pads + 1 else pads"
      from go inv have n: "\<not> (2 \<le> q \<and> 4 \<le> q + (pads + 1))" by auto
      then have step: "a2b_base64_loop q l pads out (b # bs) = a2b_base64_loop q l ?pads out bs"
        using True by auto
      from go inv have p1: "?pads \<le> 1" and p2: "?pads = 1 \<longrightarrow> q = 2" by auto
      have gd: "group_done q pads (61 # p) = group_done q ?pads p" for p
        using go inv(1,2) by (rule group_done_pad)
      have nil: "\<not> group_done q pads []" using go inv(1) by (simp add: group_done_Nil)
      have sb: "significant_bytes (b # bs) = 61 # significant_bytes bs"
        using True by (simp add: significant_bytes_Cons)
      have "(\<exists>p t. significant_bytes (b # bs) = p @ 61 # t \<and> group_done q pads p)
            \<longleftrightarrow> (\<exists>p t. significant_bytes bs = p @ 61 # t \<and> group_done q ?pads p)"
        unfolding sb split_at_Cons gd using nil by simp
      moreover have "length (filter is_data_byte (b # bs)) = length (filter is_data_byte bs)"
        using True table_pad by simp
      ultimately show ?thesis
        using Cons.IH [OF inv(1) p1 p2, of l out] step by simp
    qed
  next
    case False
    show ?thesis
    proof (cases "table_a2b_base64 b")
      case None
      then have nd: "\<not> is_data_byte b" by (simp add: is_data_byte_def)
      have "a2b_base64_loop q l pads out (b # bs) = a2b_base64_loop q l pads out bs"
        using False None by simp
      moreover have "significant_bytes (b # bs) = significant_bytes bs"
        using False nd by (simp add: significant_bytes_Cons)
      moreover have "length (filter is_data_byte (b # bs)) = length (filter is_data_byte bs)"
        using nd by simp
      ultimately show ?thesis using Cons.IH [OF inv, of l out] by simp
    next
      case (Some v)
      then have d: "is_data_byte b" by (simp add: is_data_byte_def)
      let ?q = "(q + 1) mod 4"
      have q': "?q < 4" by simp
      have "\<exists>l' out'. a2b_base64_loop q l pads out (b # bs) = a2b_base64_loop ?q l' 0 out' bs"
      proof -
        consider "q = 0" | "q = 1" | "q = 2" | "q = 3" using inv(1) by linarith
        then show ?thesis
        proof cases
          case 1
          then have qq: "?q = 1" by simp
          have "a2b_base64_loop q l pads out (b # bs) = a2b_base64_loop 1 v 0 out bs"
            using 1 False Some by simp
          then show ?thesis unfolding qq by blast
        next
          case 2
          then have qq: "?q = 2" by simp
          have "a2b_base64_loop q l pads out (b # bs)
              = a2b_base64_loop 2 (v AND 15) 0 (out @ [push_bit 2 l OR drop_bit 4 v]) bs"
            using 2 False Some by simp
          then show ?thesis unfolding qq by blast
        next
          case 3
          then have qq: "?q = 3" by simp
          have "a2b_base64_loop q l pads out (b # bs)
              = a2b_base64_loop 3 (v AND 3) 0 (out @ [push_bit 4 l OR drop_bit 2 v]) bs"
            using 3 False Some by simp
          then show ?thesis unfolding qq by blast
        next
          case 4
          then have qq: "?q = 0" by simp
          have "a2b_base64_loop q l pads out (b # bs)
              = a2b_base64_loop 0 0 0 (out @ [push_bit 6 l OR v]) bs"
            using 4 False Some by simp
          then show ?thesis unfolding qq by blast
        qed
      qed
      then obtain l' out' where
        step: "a2b_base64_loop q l pads out (b # bs) = a2b_base64_loop ?q l' 0 out' bs"
        by blast
      have gd: "group_done q pads (b # p) = group_done ?q 0 p" for p
        using d by (rule group_done_data)
      have sb: "significant_bytes (b # bs) = b # significant_bytes bs"
        using d by (simp add: significant_bytes_Cons)
      have "(\<exists>p t. significant_bytes (b # bs) = p @ 61 # t \<and> group_done q pads p)
            \<longleftrightarrow> (\<exists>p t. significant_bytes bs = p @ 61 # t \<and> group_done ?q 0 p)"
        unfolding sb split_at_Cons gd using False by simp
      moreover have "(q + length (filter is_data_byte (b # bs))) mod 4
            = (?q + length (filter is_data_byte bs)) mod 4"
        using d by (simp add: mod_add_left_eq)
      ultimately show ?thesis
        using Cons.IH [OF q', of 0 l' out'] step by simp
    qed
  qed
qed

lemma significant_bytes_map:
  assumes "\<forall>c \<in> set s. c < 128"
  shows "significant_bytes (map of_nat s) = map of_nat (significant s)"
  using assms
proof (induction s)
  case Nil
  show ?case by (simp add: significant_bytes_def significant_def)
next
  case (Cons c s)
  then have c: "c < 256" by simp
  from Cons have IH: "significant_bytes (map of_nat s) = map of_nat (significant s)" by simp
  have "significant_bytes (map of_nat (c # s))
          = (if is_data_byte (of_nat c) \<or> (of_nat c :: byte) = 61
             then of_nat c # significant_bytes (map of_nat s)
             else significant_bytes (map of_nat s))"
    by (simp add: significant_bytes_Cons)
  also have "\<dots> = (if is_b64_char c \<or> c = 61
                     then of_nat c # map of_nat (significant s) else map of_nat (significant s))"
    by (simp only: table_is_b64_char [OF c] pad_byte [OF c] IH)
  also have "\<dots> = map of_nat (significant (c # s))"
    by (simp add: significant_def)
  finally show ?case .
qed

lemma group_done_map:
  assumes "\<forall>c \<in> set w. c < 128"
  shows "group_done 0 0 (map of_nat w) \<longleftrightarrow> pad_completes_group w"
proof (cases "w = []")
  case True
  then show ?thesis by (simp add: group_done_def pad_completes_group_def)
next
  case False
  then have "last w \<in> set w" by simp
  with assms have "last w < 128" by blast
  then have "last w < 256" by simp
  then have l: "last (map of_nat w :: byte list) = 61 \<longleftrightarrow> last w = 61"
    using False by (simp add: last_map pad_byte)
  show ?thesis
    using False unfolding group_done_def pad_completes_group_def data_count [OF assms] l
    by simp
qed

lemma significant_ascii: "\<forall>c \<in> set s. c < 128 \<Longrightarrow> \<forall>c \<in> set (significant s). c < 128"
  by (simp add: significant_def)

lemma completing_pad_map:
  assumes "\<forall>c \<in> set u. c < 128"
  shows "(\<exists>p t. map of_nat u = p @ (61 :: byte) # t \<and> group_done 0 0 p) \<longleftrightarrow>
         list_ex (\<lambda>i. u ! i = 61 \<and> pad_completes_group (take i u)) [0..<length u]"
proof
  assume "\<exists>p t. map of_nat u = p @ (61 :: byte) # t \<and> group_done 0 0 p"
  then obtain p t where e: "map of_nat u = p @ (61 :: byte) # t" and g: "group_done 0 0 p"
    by blast
  from e obtain u1 u2 where u: "u = u1 @ u2" and p: "p = map of_nat u1"
    and t: "(61 :: byte) # t = map of_nat u2"
    by (auto simp: map_eq_append_conv)
  from t obtain c u3 where u2: "u2 = c # u3" and c: "(of_nat c :: byte) = 61" by auto
  from u u2 assms have "c < 256" by auto
  with c have c61: "c = 61" by (simp add: pad_byte)
  let ?i = "length u1"
  have i: "?i < length u" using u u2 by simp
  have n: "u ! ?i = 61" using u u2 c61 by simp
  have tk: "take ?i u = u1" using u by simp
  from u assms have "\<forall>c \<in> set u1. c < 128" by auto
  with g p have "pad_completes_group u1" by (simp add: group_done_map)
  with i n tk show "list_ex (\<lambda>i. u ! i = 61 \<and> pad_completes_group (take i u)) [0..<length u]"
    by (auto simp: list_ex_iff)
next
  assume "list_ex (\<lambda>i. u ! i = 61 \<and> pad_completes_group (take i u)) [0..<length u]"
  then obtain i where i: "i < length u" and n: "u ! i = 61"
    and g: "pad_completes_group (take i u)"
    by (auto simp: list_ex_iff)
  have "\<forall>c \<in> set (take i u). c < 128" using assms by (auto dest: in_set_takeD)
  with g have g': "group_done 0 0 (map of_nat (take i u))" by (simp add: group_done_map)
  have "u = take i u @ u ! i # drop (Suc i) u" using i by (rule id_take_nth_drop)
  then have "map of_nat u = (map of_nat (take i u @ u ! i # drop (Suc i) u) :: byte list)"
    by (rule arg_cong)
  also have "\<dots> = map of_nat (take i u) @ (61 :: byte) # map of_nat (drop (Suc i) u)"
    by (simp add: n)
  finally have "map of_nat u
      = map of_nat (take i u) @ (61 :: byte) # map of_nat (drop (Suc i) u)" .
  with g' show "\<exists>p t. map of_nat u = p @ (61 :: byte) # t \<and> group_done 0 0 p" by blast
qed

lemma b64decode_accepts_iff: "(\<exists>bs. b64decode s = Inr bs) \<longleftrightarrow> lenient_accepts s"
proof (cases "\<exists>c \<in> set s. 128 \<le> c")
  case True
  then have "\<not> list_all (\<lambda>c. c < 128) s" by (fastforce simp: list_all_iff)
  then show ?thesis using True by (simp add: b64decode_def lenient_accepts_def)
next
  case False
  then have ascii: "\<forall>c \<in> set s. c < 128" by auto
  have "(\<exists>bs. b64decode s = Inr bs)
        \<longleftrightarrow> (\<exists>r. a2b_base64_loop 0 0 0 [] (map of_nat s) = Inr r)"
    using False by (simp add: b64decode_def a2b_base64_def)
  also have "\<dots> \<longleftrightarrow>
      ((\<exists>p t. significant_bytes (map of_nat s) = p @ 61 # t \<and> group_done 0 0 p)
       \<or> (0 + length (filter is_data_byte (map of_nat s))) mod 4 = 0)"
    by (rule loop_accepts_iff) simp_all
  also have "\<dots> \<longleftrightarrow>
      (list_ex (\<lambda>i. significant s ! i = 61 \<and> pad_completes_group (take i (significant s)))
          [0..<length (significant s)]
       \<or> length (filter is_b64_char s) mod 4 = 0)"
    unfolding significant_bytes_map [OF ascii] data_count [OF ascii]
      completing_pad_map [OF significant_ascii [OF ascii]]
    by simp
  also have "\<dots> \<longleftrightarrow> lenient_accepts s"
    using ascii by (simp add: lenient_accepts_def list_all_iff)
  finally show ?thesis .
qed

lemma b64decode_Nil: "b64decode [] = Inr []"
  by (simp add: b64decode_def a2b_base64_def)

lemma b64decode_nonempty_data:
  assumes "b64decode p = Inr bs" and "bs \<noteq> []"
  shows "2 \<le> length (filter is_b64_char p)"
proof -
  from assms(1) have ascii: "\<forall>c \<in> set p. c < 128"
    by (auto simp: b64decode_def split: if_splits)
  with assms(1) have l: "a2b_base64_loop 0 0 0 [] (map of_nat p) = Inr bs"
    by (auto simp: b64decode_def a2b_base64_def split: if_splits)
  have "\<not> length (filter is_b64_char p) < 2"
  proof
    assume "length (filter is_b64_char p) < 2"
    then have "0 + length (filter is_data_byte (map of_nat p)) < 2"
      unfolding data_count [OF ascii] by simp
    from loop_few_data_empty [OF l this] assms(2) show False by simp
  qed
  then show ?thesis by simp
qed

text \<open>
  Claim C2, as the code has it. Once \<open>sys.stdin.read()\<close> has returned the text,
  \<open>read_stdin\<close> raises nothing, and for every text that \<open>b64decode\<close> rejects it returns the
  empty byte sequence. \<open>b64decode\<close> is called with its default \<open>validate=False\<close>, which
  discards the characters outside the alphabet, and the pad characters that complete
  no group, instead of rejecting the text. So the stripped text is rejected exactly
  when it has a character above 127, or when no pad character completes a group and
  the number of its alphabet characters is not a multiple of 4; for every other text
  the result is what \<open>b64decode\<close> returns, and it is non-empty only when the text holds at
  least two characters of the alphabet.
\<close>

theorem read_stdin_lenient:
  assumes "stdin_decode io stdin = Inr txt"
  shows "(\<exists>data. read_stdin io stdin = Inr data)
       \<and> (\<not> lenient_accepts (py_strip txt) \<longrightarrow> read_stdin io stdin = Inr [])
       \<and> (lenient_accepts (py_strip txt) \<longrightarrow> read_stdin io stdin = b64decode (py_strip txt))
       \<and> (read_stdin io stdin \<noteq> Inr [] \<longrightarrow> 2 \<le> length (filter is_b64_char (py_strip txt)))"
proof -
  let ?p = "py_strip txt"
  have r: "read_stdin io stdin =
             (if ?p = [] then Inr []
              else (case b64decode ?p of Inl e \<Rightarrow> Inr [] | Inr bs \<Rightarrow> Inr bs))"
    using assms by (simp add: read_stdin_def Let_def)
  have A: "\<exists>data. read_stdin io stdin = Inr data"
    by (simp add: r split: sum.splits)
  have B: "read_stdin io stdin = Inr []" if "\<not> lenient_accepts ?p"
  proof -
    from that have "\<not> (\<exists>bs. b64decode ?p = Inr bs)" by (simp add: b64decode_accepts_iff)
    then obtain e where "b64decode ?p = Inl e" by (cases "b64decode ?p") auto
    then show ?thesis by (simp add: r)
  qed
  have C: "read_stdin io stdin = b64decode ?p" if "lenient_accepts ?p"
  proof -
    from that obtain bs where "b64decode ?p = Inr bs" using b64decode_accepts_iff by blast
    then show ?thesis using b64decode_Nil by (auto simp: r)
  qed
  have D: "2 \<le> length (filter is_b64_char ?p)" if "read_stdin io stdin \<noteq> Inr []"
  proof -
    from that obtain bs where "b64decode ?p = Inr bs" and "bs \<noteq> []"
      by (auto simp: r split: if_splits sum.splits)
    then show ?thesis by (rule b64decode_nonempty_data)
  qed
  from A B C D show ?thesis by blast
qed

theorem read_stdin_lenient_witness:
  "stdin_decode stdio_utf8 (map of_char ''YQ='') = Inr (str_of ''YQ='')
   \<and> \<not> lenient_accepts (py_strip (str_of ''YQ=''))
   \<and> read_stdin stdio_utf8 (map of_char ''YQ='') = Inr []
   \<and> stdin_decode stdio_utf8 (map of_char ''YW!Jj'') = Inr (str_of ''YW!Jj'')
   \<and> lenient_accepts (py_strip (str_of ''YW!Jj''))
   \<and> read_stdin stdio_utf8 (map of_char ''YW!Jj'') = Inr [97, 98, 99]
   \<and> 2 \<le> length (filter is_b64_char (py_strip (str_of ''YW!Jj'')))"
proof -
  have a: "stdin_decode stdio_utf8 (map of_char ''YQ='') = Inr (str_of ''YQ='')"
    by (simp add: stdio_utf8_def decoded_def str_of_def)
  have b: "\<not> lenient_accepts (py_strip (str_of ''YQ=''))" by code_simp
  have c: "stdin_decode stdio_utf8 (map of_char ''YW!Jj'') = Inr (str_of ''YW!Jj'')"
    by (simp add: stdio_utf8_def decoded_def str_of_def)
  have d: "lenient_accepts (py_strip (str_of ''YW!Jj''))" by code_simp
  have e: "b64decode (py_strip (str_of ''YW!Jj'')) = Inr [97, 98, 99]"
    by (simp add: py_strip_def py_isspace_def str_of_def b64decode_def
          a2b_base64_def table_a2b_base64_def)
  have f: "(Inr [97, 98, 99] :: py_exception + bytes) \<noteq> Inr []" by simp
  show ?thesis
    using a b c d e f read_stdin_lenient [OF a] read_stdin_lenient [OF c] by auto
qed

text \<open>
  Claim C2 as stated fails: the text \<open>YW!Jj\<close> is not well-formed base64 (it has the
  character \<open>!\<close> and five characters), and \<open>read_stdin\<close> returns the three bytes of
  \<open>abc\<close> for it.
\<close>

theorem read_stdin_lenient_counterexample:
  "stdin_decode stdio_utf8 (map of_char ''YW!Jj'') = Inr (str_of ''YW!Jj'')
   \<and> \<not> well_formed_base64 (py_strip (str_of ''YW!Jj''))
   \<and> read_stdin stdio_utf8 (map of_char ''YW!Jj'') = Inr [97, 98, 99]"
proof -
  have c: "stdin_decode stdio_utf8 (map of_char ''YW!Jj'') = Inr (str_of ''YW!Jj'')"
    by (simp add: stdio_utf8_def decoded_def str_of_def)
  have "py_strip (str_of ''YW!Jj'') = str_of ''YW!Jj''"
    by (simp add: py_strip_def py_isspace_def str_of_def)
  then have "\<not> well_formed_base64 (py_strip (str_of ''YW!Jj''))"
    by (simp add: well_formed_base64_def str_of_def)
  moreover have "read_stdin stdio_utf8 (map of_char ''YW!Jj'') = Inr [97, 98, 99]"
    by (simp add: read_stdin_def stdio_utf8_def decoded_def py_strip_def py_isspace_def
          str_of_def b64decode_def a2b_base64_def table_a2b_base64_def)
  ultimately show ?thesis using c by blast
qed

section \<open>\<open>main\<close> and the file as shipped\<close>

lemma main_unfold:
  "main L io argv stdin =
     (case read_stdin io stdin of
        Inl e \<Rightarrow> Inl e
      | Inr data \<Rightarrow>
          (case (if mime_of argv = docx_mime then extract_docx L data
                 else if mime_of argv = pdf_mime then extract_pdf L data
                 else Inr [])
           of Inl e \<Rightarrow> Inl e
            | Inr text \<Rightarrow> stdout_encode io (json_dumps_text text)))"
  unfolding main_def mime_of_def docx_mime_def pdf_mime_def Let_def by (rule refl)

lemma file_does_not_compile: "\<not> module_compiles"
  by (simp add: module_compiles_def line_90_def)

lemma run_is_syntax_error: "extract_docs_py L io argv stdin = Inl SyntaxError"
  by (simp add: extract_docs_py_def file_does_not_compile)

lemma read_stdin_decoded:
  "stdin_decode io stdin = Inr txt \<Longrightarrow>
   read_stdin io stdin =
     (if py_strip txt = [] then Inr []
      else (case b64decode (py_strip txt) of Inl e \<Rightarrow> Inr [] | Inr bs \<Rightarrow> Inr bs))"
  by (simp add: read_stdin_def Let_def)

lemma read_stdin_undecodable:
  "stdin_decode io stdin = Inl e \<Longrightarrow> read_stdin io stdin = Inl e"
  by (simp add: read_stdin_def)

lemma read_stdin_total:
  "stdin_decode io stdin = Inr txt \<Longrightarrow> \<exists>data. read_stdin io stdin = Inr data"
  by (simp add: read_stdin_decoded split: sum.splits)

lemma extract_docx_total: "\<exists>s. extract_docx L data = Inr s"
  by (simp add: extract_docx_def split: sum.splits)

lemma extract_pdf_total: "\<exists>s. extract_pdf L data = Inr s"
  by (simp add: extract_pdf_def split: sum.splits)

lemma main_undecodable:
  "stdin_decode io stdin = Inl e \<Longrightarrow> main L io argv stdin = Inl e"
  by (simp add: main_unfold read_stdin_undecodable)

lemma main_encodes_json:
  assumes "stdin_decode io stdin = Inr txt"
  shows "\<exists>t. main L io argv stdin = stdout_encode io (json_dumps_text t)"
proof -
  obtain data where d: "read_stdin io stdin = Inr data"
    using read_stdin_total [OF assms] by blast
  obtain s1 where s1: "extract_docx L data = Inr s1" using extract_docx_total by blast
  obtain s2 where s2: "extract_pdf L data = Inr s2" using extract_pdf_total by blast
  show ?thesis by (auto simp: main_unfold d s1 s2)
qed

lemma json_dumps_text_envelope:
  "json_dumps_text text = envelope (concat (map json_escape text))"
  by (simp add: json_dumps_text_def envelope_def encode_basestring_def json_escape_def str_of_def)

lemma hex_value_hex_digit: "n < 16 \<Longrightarrow> hex_value (hex_digit n) = Some n"
  by (simp add: hex_value_def hex_digit_def)

lemma hex4_control: "c < 32 \<Longrightarrow> hex4 48 48 (hex_digit (c div 16)) (hex_digit (c mod 16)) = Some c"
proof -
  assume c: "c < 32"
  then have "c div 16 < 16" by simp
  then have a: "hex_value (hex_digit (c div 16)) = Some (c div 16)" by (rule hex_value_hex_digit)
  have b: "hex_value (hex_digit (c mod 16)) = Some (c mod 16)" by (rule hex_value_hex_digit) simp
  have z: "hex_value 48 = Some 0" by (simp add: hex_value_def)
  show ?thesis by (simp add: hex4_def a b z)
qed

lemma json_string_tail_quote: "json_string_tail (34 # rest) = Some ([], rest)"
  by (cases rest) simp_all

lemma json_string_tail_plain:
  "32 \<le> c \<Longrightarrow> c \<noteq> 34 \<Longrightarrow> c \<noteq> 92 \<Longrightarrow>
   json_string_tail (c # rest) = cons_char c (json_string_tail rest)"
  by (cases rest) (simp_all add: cons_char_def)

lemma json_string_tail_escape:
  "json_string_tail (json_escape c @ rest) = cons_char c (json_string_tail rest)"
proof -
  consider "c = 92" | "c = 34" | "c = 8" | "c = 12" | "c = 10" | "c = 13" | "c = 9"
    | "c < 32" "c \<noteq> 8" "c \<noteq> 12" "c \<noteq> 10" "c \<noteq> 13" "c \<noteq> 9"
    | "32 \<le> c" "c \<noteq> 34" "c \<noteq> 92"
    by linarith
  then show ?thesis
  proof cases
    case 8
    then have "json_escape c = [92, 117, 48, 48, hex_digit (c div 16), hex_digit (c mod 16)]"
      by (simp add: json_escape_def str_of_def)
    then show ?thesis using hex4_control [OF 8(1)] by simp
  next
    case 9
    then have "json_escape c = [c]" by (simp add: json_escape_def)
    then show ?thesis using json_string_tail_plain [OF 9] by simp
  qed (simp_all add: json_escape_def str_of_def unescape_def)
qed

lemma json_string_tail_roundtrip:
  "json_string_tail (concat (map json_escape s) @ 34 # rest) = Some (s, rest)"
proof (induction s)
  case Nil
  show ?case by (simp add: json_string_tail_quote)
next
  case (Cons c s)
  have "json_string_tail (concat (map json_escape (c # s)) @ 34 # rest)
        = json_string_tail (json_escape c @ (concat (map json_escape s) @ 34 # rest))"
    by simp
  also have "\<dots> = cons_char c (json_string_tail (concat (map json_escape s) @ 34 # rest))"
    by (rule json_string_tail_escape)
  also have "\<dots> = Some (c # s, rest)" by (simp add: Cons.IH cons_char_def)
  finally show ?case .
qed

lemma json_text_object_envelope:
  "json_text_object (envelope (concat (map json_escape text))) = Some text"
proof -
  let ?body = "concat (map json_escape text)"
  have key: "json_string_tail (str_of ''text'' @ 34 # r) = Some (str_of ''text'', r)" for r
    using json_string_tail_roundtrip [of "str_of ''text''" r]
    by (simp add: json_escape_def str_of_def)
  have e: "envelope ?body = 123 # 34 # (str_of ''text'' @ 34 # (58 # 32 # 34 # (?body @ 34 # [125])))"
    by (simp add: envelope_def str_of_def)
  have 1: "expect 123 (envelope ?body) = Some (34 # (str_of ''text'' @ 34 # (58 # 32 # 34 # (?body @ 34 # [125]))))"
    by (simp add: e expect_def json_ws_def)
  have 2: "expect 34 (34 # (str_of ''text'' @ 34 # (58 # 32 # 34 # (?body @ 34 # [125]))))
             = Some (str_of ''text'' @ 34 # (58 # 32 # 34 # (?body @ 34 # [125])))"
    by (simp add: expect_def json_ws_def)
  have 3: "expect 58 (58 # 32 # 34 # (?body @ 34 # [125])) = Some (32 # 34 # (?body @ 34 # [125]))"
    by (simp add: expect_def json_ws_def)
  have 4: "expect 34 (32 # 34 # (?body @ 34 # [125])) = Some (?body @ 34 # [125])"
    by (simp add: expect_def json_ws_def)
  have 5: "json_string_tail (?body @ 34 # [125]) = Some (text, [125])"
    by (rule json_string_tail_roundtrip)
  have 6: "expect 125 [125] = Some []" by (simp add: expect_def json_ws_def)
  show ?thesis
    unfolding json_text_object_def by (simp add: 1 2 key 3 4 5 6)
qed

lemma hex_digit_ascii: "n < 16 \<Longrightarrow> hex_digit n < 128"
  by (simp add: hex_digit_def)

lemma filter_non_ascii_escape:
  "filter (\<lambda>c. 128 \<le> c) (json_escape c) = (if 128 \<le> c then [c] else [])"
proof (cases "c < 32")
  case True
  have "hex_digit (c div 16) < 128" using True by (intro hex_digit_ascii) simp
  moreover have "hex_digit (c mod 16) < 128" by (intro hex_digit_ascii) simp
  ultimately show ?thesis using True by (simp add: json_escape_def str_of_def)
next
  case False
  then show ?thesis by (simp add: json_escape_def str_of_def)
qed

lemma filter_non_ascii_body:
  "filter (\<lambda>c. 128 \<le> c) (concat (map json_escape s)) = filter (\<lambda>c. 128 \<le> c) s"
  by (induction s) (simp_all add: filter_non_ascii_escape)

lemma filter_non_ascii_envelope:
  "filter (\<lambda>c. 128 \<le> c) (envelope body) = filter (\<lambda>c. 128 \<le> c) body"
  by (simp add: envelope_def str_of_def)

lemma utf8_encode_ascii:
  "\<forall>c \<in> set s. c < 128 \<Longrightarrow> utf8_encode s = Inr (map of_nat s)"
  by (induction s) (simp_all add: utf8_char_def)

lemma stdin_examples_utf8:
  "stdin_decode stdio_utf8 stdin_docx = Inr (str_of ''UEsDBA=='')"
  "stdin_decode stdio_utf8 stdin_pdf = Inr (str_of ''SGVsbG8sIFBERgBhYmNk'')"
  "stdin_decode stdio_utf8 [] = Inr []"
  "stdin_decode stdio_utf8 [255] = Inl UnicodeDecodeError"
  by (simp_all add: stdio_utf8_def stdin_docx_def stdin_pdf_def decoded_def str_of_def)


lemma read_stdin_empty: "read_stdin stdio_utf8 [] = Inr []"
  using stdin_examples_utf8(3) by (simp add: read_stdin_decoded py_strip_def)

lemma mime_of_examples:
  "mime_of argv_docx = docx_mime" "mime_of argv_pdf = pdf_mime"
  "mime_of argv_other = str_of ''text/plain''" "mime_of argv_none = []"
  by (simp_all add: mime_of_def argv_docx_def argv_pdf_def argv_other_def argv_none_def)

lemma mime_distinct:
  "pdf_mime \<noteq> docx_mime" "str_of ''text/plain'' \<noteq> docx_mime"
  "str_of ''text/plain'' \<noteq> pdf_mime" "[] \<noteq> docx_mime" "[] \<noteq> pdf_mime"
  by (simp_all add: docx_mime_def pdf_mime_def str_of_def)

lemma extract_docx_accent: "extract_docx lib_accent docx_bytes = Inr (str_of ''caf'' @ [233])"
proof -
  have "collect (iter root_accent) [] = [str_of ''caf'' @ [233]]"
    by (simp add: root_accent_def py_endswith_def str_of_def)
  then show ?thesis
    by (simp add: extract_docx_def extract_docx_try_def lib_accent_def archive_accent_def
          docx_bytes_def py_strip_def py_isspace_def str_of_def)
qed

lemma json_accent:
  "json_dumps_text (str_of ''caf'' @ [233])
     = [123, 34, 116, 101, 120, 116, 34, 58, 32, 34, 99, 97, 102, 233, 34, 125]"
  by (simp add: json_dumps_text_def encode_basestring_def json_escape_def str_of_def)

lemma json_empty:
  "json_dumps_text [] = envelope []"
  by (simp add: json_dumps_text_envelope)


lemma main_text_object:
  assumes "stdin_decode io stdin = Inr txt"
  shows "\<exists>t. main L io argv stdin = stdout_encode io (json_dumps_text t)
           \<and> json_text_object (json_dumps_text t) = Some t
           \<and> filter (\<lambda>c. 128 \<le> c) (json_dumps_text t) = filter (\<lambda>c. 128 \<le> c) t"
proof -
  obtain t where "main L io argv stdin = stdout_encode io (json_dumps_text t)"
    using main_encodes_json [OF assms] by blast
  moreover have "json_text_object (json_dumps_text t) = Some t"
    by (simp add: json_dumps_text_envelope json_text_object_envelope)
  moreover have "filter (\<lambda>c. 128 \<le> c) (json_dumps_text t) = filter (\<lambda>c. 128 \<le> c) t"
    by (simp add: json_dumps_text_envelope filter_non_ascii_envelope filter_non_ascii_body)
  ultimately show ?thesis by blast
qed

lemma main_unrecognised_mime:
  assumes "mime_of argv \<noteq> docx_mime" and "mime_of argv \<noteq> pdf_mime"
    and "stdin_decode io stdin = Inr txt"
  shows "main L io argv stdin = stdout_encode io (envelope [])"
proof -
  obtain data where "read_stdin io stdin = Inr data"
    using read_stdin_total [OF assms(3)] by blast
  then show ?thesis using assms(1,2) by (simp add: main_unfold json_empty)
qed

lemma main_empty_input:
  assumes "read_stdin io stdin = Inr []"
    and "mime_of argv = docx_mime \<or> mime_of argv = pdf_mime"
  shows "main L io argv stdin = stdout_encode io (envelope [])"
  using assms by (auto simp: main_unfold extract_docx_def extract_pdf_def json_empty)

lemma utf8_envelope_empty: "utf8_encode (envelope []) = Inr (map of_nat (envelope []))"
  by (rule utf8_encode_ascii) (simp add: envelope_def str_of_def)

text \<open>
  Claim C1 says that every run writes one JSON object with the single member \<open>text\<close>.
  The file as shipped does not: for every argument list, every standard input and
  every runtime, the run ends with the \<open>SyntaxError\<close> of line 90 before \<open>main\<close> is called,
  and nothing is written. Lines 74 to 85 on their own write such an object whenever
  reading and writing succeed (\<open>main_text_object\<close>), but let two exceptions escape:
  the \<open>UnicodeDecodeError\<close> of line 15 for standard input that is not valid in the
  encoding of the stream, and the \<open>UnicodeEncodeError\<close> of line 85 for a text that the
  encoding of standard output cannot encode.
\<close>

theorem shipped_file_writes_no_json:
  "extract_docs_py L io argv stdin = Inl SyntaxError
   \<and> written (extract_docs_py L io argv stdin) = []
   \<and> main lib_ns stdio_utf8 argv_docx [255] = Inl UnicodeDecodeError
   \<and> main lib_accent stdio_ascii_out argv_docx stdin_docx = Inl UnicodeEncodeError"
proof -
  have a: "extract_docs_py L io argv stdin = Inl SyntaxError" by (rule run_is_syntax_error)
  then have b: "written (extract_docs_py L io argv stdin) = []" by (simp add: written_def)
  have c: "main lib_ns stdio_utf8 argv_docx [255] = Inl UnicodeDecodeError"
    by (rule main_undecodable) (rule stdin_examples_utf8(4))
  have d: "stdin_decode stdio_ascii_out stdin_docx = Inr (str_of ''UEsDBA=='')"
    by (simp add: stdio_ascii_out_def stdin_docx_def decoded_def str_of_def)
  have r: "read_stdin stdio_ascii_out stdin_docx = Inr docx_bytes"
    by (simp add: read_stdin_decoded [OF d] docx_bytes_def py_strip_def py_isspace_def
          str_of_def b64decode_def a2b_base64_def table_a2b_base64_def)
  have o: "stdout_encode stdio_ascii_out = ascii_encode" by (simp add: stdio_ascii_out_def)
  have e: "main lib_accent stdio_ascii_out argv_docx stdin_docx = Inl UnicodeEncodeError"
    by (simp add: main_unfold r mime_of_examples extract_docx_accent json_accent o)
  from a b c e show ?thesis by blast
qed

text \<open>
  Claim C5 says that for a classifier argument other than the two MIME types the
  output is \<open>{"text": ""}\<close> whatever standard input holds. With the argument
  \<open>text/plain\<close> the file as shipped writes nothing: the run ends with the \<open>SyntaxError\<close> of
  line 90. Lines 74 to 85 on their own give that output for standard input that
  decodes, and raise \<open>UnicodeDecodeError\<close> for the byte 255, since line 76 reads
  standard input before line 78 looks at the MIME type.
\<close>

theorem unrecognised_mime_run_fails:
  "mime_of argv_other \<noteq> docx_mime \<and> mime_of argv_other \<noteq> pdf_mime
   \<and> extract_docs_py lib_ns stdio_utf8 argv_other stdin_docx = Inl SyntaxError
   \<and> main lib_ns stdio_utf8 argv_other [255] = Inl UnicodeDecodeError
   \<and> main lib_ns stdio_utf8 argv_other stdin_docx = Inr (map of_nat (envelope []))"
proof -
  have a: "mime_of argv_other \<noteq> docx_mime" and b: "mime_of argv_other \<noteq> pdf_mime"
    by (simp_all add: mime_of_examples mime_distinct)
  have c: "extract_docs_py lib_ns stdio_utf8 argv_other stdin_docx = Inl SyntaxError"
    by (rule run_is_syntax_error)
  have d: "main lib_ns stdio_utf8 argv_other [255] = Inl UnicodeDecodeError"
    by (rule main_undecodable) (rule stdin_examples_utf8(4))
  have e: "main lib_ns stdio_utf8 argv_other stdin_docx = Inr (map of_nat (envelope []))"
    using main_unrecognised_mime [OF a b stdin_examples_utf8(1), of lib_ns]
    by (simp add: stdio_utf8_def utf8_envelope_empty)
  from a b c d e show ?thesis by blast
qed

text \<open>
  Claim C8 says that on empty input with a recognised MIME type the extractors
  return the empty string without parsing and the process writes \<open>{"text": ""}\<close>. Both
  extractors do return the empty string on the empty byte sequence, whatever the
  libraries would do; but the file as shipped writes nothing, since every run ends
  with the \<open>SyntaxError\<close> of line 90. Lines 74 to 85 on their own write that output.
\<close>

theorem empty_input_run_fails:
  "extract_docx L [] = Inr [] \<and> extract_pdf L [] = Inr []
   \<and> extract_docs_py L io argv_docx [] = Inl SyntaxError
   \<and> extract_docs_py L io argv_pdf [] = Inl SyntaxError
   \<and> main lib_ns stdio_utf8 argv_docx [] = Inr (map of_nat (envelope []))
   \<and> main lib_with_pypdf stdio_utf8 argv_pdf [] = Inr (map of_nat (envelope []))"
proof -
  have a: "extract_docx L [] = Inr []" by (simp add: extract_docx_def)
  have b: "extract_pdf L [] = Inr []" by (simp add: extract_pdf_def)
  have c: "extract_docs_py L io argv_docx [] = Inl SyntaxError" by (rule run_is_syntax_error)
  have d: "extract_docs_py L io argv_pdf [] = Inl SyntaxError" by (rule run_is_syntax_error)
  have e: "main lib_ns stdio_utf8 argv_docx [] = Inr (map of_nat (envelope []))"
    using main_empty_input [OF read_stdin_empty, of argv_docx lib_ns]
    by (simp add: mime_of_examples stdio_utf8_def utf8_envelope_empty)
  have f: "main lib_with_pypdf stdio_utf8 argv_pdf [] = Inr (map of_nat (envelope []))"
    using main_empty_input [OF read_stdin_empty, of argv_pdf lib_with_pypdf]
    by (simp add: mime_of_examples stdio_utf8_def utf8_envelope_empty)
  from a b c d e f show ?thesis by blast
qed




end
